theory Spec2Isabelle
  imports Main "HOL-Library.Word" "HOL-Library.Char_ord" "HOL-Library.List_Lexorder"
begin

unbundle bit_operations_syntax

section \<open>Host values\<close>

text \<open>
  The host values that cross the boundary of \<^verbatim>\<open>Go.js\<close>. A number is kept as the 64 bits
  of its IEEE 754 encoding, because \<^verbatim>\<open>storeValue\<close> and \<^verbatim>\<open>loadValue\<close> only move these bits
  and test them with \<^verbatim>\<open>isNaN\<close>; no floating-point arithmetic is done on them. Objects,
  functions and symbols are identified by a number (their identity). Strings are lists of
  8-bit code units (the Latin-1 range of a JavaScript string).
\<close>

datatype jsval =
    JNumber "64 word"
  | JUndefined
  | JNull
  | JBool bool
  | JString string
  | JSymbol nat
  | JFunction nat
  | JObject nat

text \<open>\<^verbatim>\<open>isNaN(f)\<close> on the bits: exponent all ones and a mantissa that is not zero.\<close>

definition isNaN :: "64 word \<Rightarrow> bool" where
  "isNaN w \<longleftrightarrow> (uint w div 2 ^ 52) mod 2 ^ 11 = 2047 \<and> uint w mod 2 ^ 52 \<noteq> 0"

text \<open>The literal \<^verbatim>\<open>NaN\<close>: the quiet NaN with an empty payload.\<close>

definition NaN :: jsval where
  "NaN = JNumber 0x7FF8000000000000"

fun typeof :: "jsval \<Rightarrow> string" where
  "typeof (JNumber w) = ''number''"
| "typeof JUndefined = ''undefined''"
| "typeof JNull = ''object''"
| "typeof (JBool b) = ''boolean''"
| "typeof (JString x) = ''string''"
| "typeof (JSymbol n) = ''symbol''"
| "typeof (JFunction n) = ''function''"
| "typeof (JObject n) = ''object''"

text \<open>
  Two host values are observationally equal when they are the same value, or both are
  numbers that are NaN (a NaN has no observable payload).
\<close>

fun obs_eq :: "jsval \<Rightarrow> jsval \<Rightarrow> bool" where
  "obs_eq (JNumber a) (JNumber b) = (a = b \<or> (isNaN a \<and> isNaN b))"
| "obs_eq v w = (v = w)"

text \<open>What the code calls a primitive in \<^verbatim>\<open>storeValue\<close>: the values it never interns.\<close>

fun primitive :: "jsval \<Rightarrow> bool" where
  "primitive (JNumber w) = True"
| "primitive JUndefined = True"
| "primitive JNull = True"
| "primitive (JBool b) = True"
| "primitive v = False"

text \<open>
  What a \<^verbatim>\<open>throw\<close> carries. \<^verbatim>\<open>TypeError\<close> and \<^verbatim>\<open>RangeError\<close> are raised by the engine
  (a property read on \<^verbatim>\<open>undefined\<close>, an offset outside a buffer), \<^verbatim>\<open>Error\<close> by the
  two \<^verbatim>\<open>throw new Error(...)\<close> of the source, \<^verbatim>\<open>Thrown\<close> by a host operation.
\<close>

datatype exn = TypeError | RangeError | Error string | Thrown jsval

section \<open>Linear memory\<close>

text \<open>
  An \<^verbatim>\<open>ArrayBuffer\<close>: its length and its bytes. The accessors are those of a
  \<^verbatim>\<open>DataView\<close> over the whole buffer, always little-endian as the source passes
  \<^verbatim>\<open>true\<close>; an offset outside the buffer raises \<^verbatim>\<open>RangeError\<close>.
\<close>

record arraybuffer =
  byteLength :: int
  bytes :: "int \<Rightarrow> 8 word"

definition dv_ok :: "arraybuffer \<Rightarrow> int \<Rightarrow> int \<Rightarrow> bool" where
  "dv_ok b off n \<longleftrightarrow> 0 \<le> off \<and> off + n \<le> byteLength b"

fun le_read :: "(int \<Rightarrow> 8 word) \<Rightarrow> int \<Rightarrow> nat \<Rightarrow> int" where
  "le_read f a 0 = 0"
| "le_read f a (Suc n) = uint (f a) + 256 * le_read f (a + 1) n"

fun le_write :: "(int \<Rightarrow> 8 word) \<Rightarrow> int \<Rightarrow> nat \<Rightarrow> int \<Rightarrow> (int \<Rightarrow> 8 word)" where
  "le_write f a 0 v = f"
| "le_write f a (Suc n) v = le_write (f(a := word_of_int v)) (a + 1) n (v div 256)"

definition dv_getUint8 :: "arraybuffer \<Rightarrow> int \<Rightarrow> exn + int" where
  "dv_getUint8 b off = (if dv_ok b off 1 then Inr (le_read (bytes b) off 1) else Inl RangeError)"

definition dv_setUint8 :: "arraybuffer \<Rightarrow> int \<Rightarrow> int \<Rightarrow> exn + arraybuffer" where
  "dv_setUint8 b off v =
     (if dv_ok b off 1 then Inr (b\<lparr>bytes := le_write (bytes b) off 1 v\<rparr>) else Inl RangeError)"

definition dv_getUint32 :: "arraybuffer \<Rightarrow> int \<Rightarrow> exn + int" where
  "dv_getUint32 b off = (if dv_ok b off 4 then Inr (le_read (bytes b) off 4) else Inl RangeError)"

text \<open>The same four bytes read as two's complement.\<close>

definition int32_of :: "int \<Rightarrow> int" where
  "int32_of u = (if u \<ge> 2 ^ 31 then u - 2 ^ 32 else u)"

definition dv_getInt32 :: "arraybuffer \<Rightarrow> int \<Rightarrow> exn + int" where
  "dv_getInt32 b off =
     (if dv_ok b off 4 then Inr (int32_of (le_read (bytes b) off 4)) else Inl RangeError)"

text \<open>
  \<^verbatim>\<open>setUint32\<close> and \<^verbatim>\<open>setInt32\<close> both write the value modulo \<open>2 ^ 32\<close>
  (\<^verbatim>\<open>ToUint32\<close>, \<^verbatim>\<open>ToInt32\<close>): the same four bytes.
\<close>

definition dv_setUint32 :: "arraybuffer \<Rightarrow> int \<Rightarrow> int \<Rightarrow> exn + arraybuffer" where
  "dv_setUint32 b off v =
     (if dv_ok b off 4 then Inr (b\<lparr>bytes := le_write (bytes b) off 4 (v mod 2 ^ 32)\<rparr>)
      else Inl RangeError)"

definition dv_setInt32 :: "arraybuffer \<Rightarrow> int \<Rightarrow> int \<Rightarrow> exn + arraybuffer" where
  "dv_setInt32 b off v =
     (if dv_ok b off 4 then Inr (b\<lparr>bytes := le_write (bytes b) off 4 (v mod 2 ^ 32)\<rparr>)
      else Inl RangeError)"

definition dv_getFloat64 :: "arraybuffer \<Rightarrow> int \<Rightarrow> exn + 64 word" where
  "dv_getFloat64 b off =
     (if dv_ok b off 8 then Inr (word_of_int (le_read (bytes b) off 8)) else Inl RangeError)"

definition dv_setFloat64 :: "arraybuffer \<Rightarrow> int \<Rightarrow> 64 word \<Rightarrow> exn + arraybuffer" where
  "dv_setFloat64 b off w =
     (if dv_ok b off 8 then Inr (b\<lparr>bytes := le_write (bytes b) off 8 (uint w)\<rparr>)
      else Inl RangeError)"

text \<open>Bytes written from an offset on, as \<^verbatim>\<open>Uint8Array.prototype.set\<close> does on a view.\<close>

fun write_bytes :: "(int \<Rightarrow> 8 word) \<Rightarrow> int \<Rightarrow> 8 word list \<Rightarrow> (int \<Rightarrow> 8 word)" where
  "write_bytes f a [] = f"
| "write_bytes f a (b # bs) = write_bytes (f(a := b)) (a + 1) bs"

definition dv_write :: "arraybuffer \<Rightarrow> int \<Rightarrow> 8 word list \<Rightarrow> exn + arraybuffer" where
  "dv_write b off bs =
     (if dv_ok b off (int (length bs)) then Inr (b\<lparr>bytes := write_bytes (bytes b) off bs\<rparr>)
      else Inl RangeError)"

section \<open>The bridge object\<close>

text \<open>
  \<^verbatim>\<open>this._nextCallbackTimeoutID\<close> is a host number that neither the constructor nor
  \<^verbatim>\<open>load\<close> assigns: it starts as \<^verbatim>\<open>undefined\<close>, and \<^verbatim>\<open>++\<close> turns that into NaN.
\<close>

datatype jsnum = NumUndefined | NumNaN | Num int

fun incr :: "jsnum \<Rightarrow> jsnum" where
  "incr NumUndefined = NumNaN"
| "incr NumNaN = NumNaN"
| "incr (Num n) = Num (n + 1)"

text \<open>\<^verbatim>\<open>ToInt32\<close> of such a number, as \<^verbatim>\<open>setInt32\<close> applies it.\<close>

fun toInt32 :: "jsnum \<Rightarrow> int" where
  "toInt32 NumUndefined = 0"
| "toInt32 NumNaN = 0"
| "toInt32 (Num n) = n"

text \<open>
  The callbacks the source hands to \<^verbatim>\<open>setTimeout\<close>: the one of \<^verbatim>\<open>scheduleCallback\<close>
  (it calls \<^verbatim>\<open>this._resolveCallbackPromise()\<close>), and the \<^verbatim>\<open>resolve\<close> of a promise of
  the run loop.
\<close>

datatype timer_fn = CallbackTimer | ResolvePromise nat

text \<open>
  The host operations behind \<^verbatim>\<open>valueCall\<close>, \<^verbatim>\<open>valueInvoke\<close> and \<^verbatim>\<open>valueNew\<close> are not
  part of the bridge: \<^verbatim>\<open>Reflect.apply\<close>, \<^verbatim>\<open>Reflect.construct\<close>, a property read, the
  \<^verbatim>\<open>TextDecoder\<close>, and the object the engine creates for an error it raises itself.
  They are parameters; \<open>Inl v\<close> is an operation that throws \<open>v\<close>.
\<close>

record host =
  reflect_apply :: "jsval \<Rightarrow> jsval \<Rightarrow> jsval list \<Rightarrow> jsval + jsval"
  reflect_construct :: "jsval \<Rightarrow> jsval list \<Rightarrow> jsval + jsval"
  get_prop :: "jsval \<Rightarrow> string \<Rightarrow> jsval + jsval"
  text_decode :: "8 word list \<Rightarrow> string"
  error_object :: "exn \<Rightarrow> jsval"

text \<open>
  What the guest does during one invocation of its entry point, as far as the bridge sees
  it: a sequence of calls of imports. The imports the claims are about are modelled in
  full. Every other import (\<^verbatim>\<open>stringVal\<close>, \<^verbatim>\<open>valueGet\<close>, \<^verbatim>\<open>valueLength\<close>, \<^verbatim>\<open>nanotime\<close>,
  \<^verbatim>\<open>getRandomData\<close> and the rest), and every store instruction of the guest itself, acts on
  the bridge only through \<^verbatim>\<open>storeValue\<close>, \<^verbatim>\<open>setInt64\<close>, \<^verbatim>\<open>setInt32\<close>, \<^verbatim>\<open>setUint8\<close> and
  writes of bytes into the memory, with values the host decides: such a call is \<open>Other\<close>,
  with the sequence of these effects.
\<close>

datatype effect =
    StoreValue int jsval
  | SetInt64 int int
  | SetInt32 int int
  | SetUint8 int int
  | WriteBytes int "8 word list"

datatype call =
    WasmExit int
  | ScheduleCallback int
  | ClearScheduledCallback int
  | ValueCall host int
  | ValueInvoke host int
  | ValueNew host int
  | Other "effect list"

text \<open>
  The result of \<^verbatim>\<open>WebAssembly.instantiate\<close>: the exported memory object, its buffer, and
  the guest, given as the calls of each successive invocation of the exported \<^verbatim>\<open>run\<close>.
\<close>

record wasm_instance =
  exports_mem :: jsval
  buffer :: arraybuffer
  guest :: "call list list"

text \<open>
  The fields of a \<^verbatim>\<open>Go\<close> object, then the part of the host's event loop the object
  drives: the pending timers of \<^verbatim>\<open>setTimeout\<close> (handle, delay, callback), the promises
  of the run loop and the loops suspended on them, and a log of the invocations of the
  entry point and of the \<^verbatim>\<open>exit\<close> callback. \<open>instance'\<close> and \<open>values'\<close> are
  \<^verbatim>\<open>this.instance\<close> and \<^verbatim>\<open>this._values\<close>; \<open>None\<close> is a property that is \<^verbatim>\<open>undefined\<close>.
  \<open>self\<close> is the object itself as a host value, \<open>env\<close> the entries of \<^verbatim>\<open>this.env\<close>, and
  \<open>exit_cb\<close> the embedder's \<^verbatim>\<open>exit\<close> callback, which returns or throws.
\<close>

record go =
  self :: jsval
  env :: "(string \<times> string) list"
  instance' :: "wasm_instance option"
  exit_cb :: "int \<Rightarrow> exn option"
  refs :: "(jsval \<rightharpoonup> nat) option"
  values' :: "jsval list option"
  callbackShutdown :: bool
  exited :: bool
  running :: bool
  nextCallbackTimeoutID :: jsnum
  callbackTimeouts :: "(jsnum \<rightharpoonup> nat) option"
  resolveCallbackPromise :: "nat option"
  timers :: "(nat \<times> int \<times> timer_fn) list"
  next_handle :: nat
  next_promise :: nat
  suspended :: "(nat \<times> int \<times> int) list"
  entry_calls :: "(int \<times> int) list"
  exit_codes :: "int list"

type_synonym 'a outcome = "(exn + 'a) \<times> go"

definition andThen :: "'a outcome \<Rightarrow> ('a \<Rightarrow> go \<Rightarrow> 'b outcome) \<Rightarrow> 'b outcome" where
  "andThen m f = (case m of (Inl e, s) \<Rightarrow> (Inl e, s) | (Inr x, s) \<Rightarrow> f x s)"

definition internalGlobal :: jsval where
  "internalGlobal = JObject 0"

subsection \<open>Construction and load\<close>

text \<open>
  \<^verbatim>\<open>load\<close> runs in two parts: up to the \<^verbatim>\<open>await\<close> of the instantiation, and after it.
  Between the two the host can run other code on the object.
\<close>

definition load_begin :: "go \<Rightarrow> go" where
  "load_begin s = s\<lparr>refs := Some Map.empty, callbackShutdown := False, exited := False,
     running := False\<rparr>"

definition load_finish :: "go \<Rightarrow> wasm_instance \<Rightarrow> go" where
  "load_finish s inst = s\<lparr>instance' := Some inst,
     values' := Some [NaN, JUndefined, JNull, JBool True, JBool False, internalGlobal,
       exports_mem inst, self s]\<rparr>"

text \<open>
  A load during which nothing else happens to the object. The first load, which the
  constructor starts, is the case: until it ends \<^verbatim>\<open>_values\<close> is \<^verbatim>\<open>undefined\<close>.
\<close>

definition load :: "go \<Rightarrow> wasm_instance \<Rightarrow> go" where
  "load s inst = load_finish (load_begin s) inst"

text \<open>The constructor, for a new object of identity \<open>me\<close>; it starts a first \<^verbatim>\<open>load\<close>.\<close>

definition constructor :: "jsval \<Rightarrow> go" where
  "constructor me = load_begin
     \<lparr>self = me, env = [], instance' = None, exit_cb = (\<lambda>code. None), refs = None,
      values' = None, callbackShutdown = False, exited = False, running = False,
      nextCallbackTimeoutID = NumUndefined, callbackTimeouts = None,
      resolveCallbackPromise = None, timers = [], next_handle = 0, next_promise = 0,
      suspended = [], entry_calls = [], exit_codes = []\<rparr>"

text \<open>
  \<^verbatim>\<open>reset\<close> calls \<^verbatim>\<open>load\<close>, which runs up to its \<^verbatim>\<open>await\<close> and returns the promise; the
  second part of the load runs when the instantiation is resolved, as an event of its own.
\<close>

definition reset :: "go \<Rightarrow> go" where
  "reset s = load_begin s"

definition loaded :: "go \<Rightarrow> bool" where
  "loaded s \<longleftrightarrow> instance' s \<noteq> None"

subsection \<open>Memory utilities\<close>

definition memRaw :: "go \<Rightarrow> exn + arraybuffer" where
  "memRaw s = (case instance' s of None \<Rightarrow> Inl TypeError | Some i \<Rightarrow> Inr (buffer i))"

text \<open>A write through \<^verbatim>\<open>this.mem\<close>: the buffer of the instance is replaced.\<close>

definition mem_update :: "go \<Rightarrow> (arraybuffer \<Rightarrow> exn + arraybuffer) \<Rightarrow> unit outcome" where
  "mem_update s f =
     (case instance' s of
        None \<Rightarrow> (Inl TypeError, s)
      | Some i \<Rightarrow>
          (case f (buffer i) of
             Inl e \<Rightarrow> (Inl e, s)
           | Inr b \<Rightarrow> (Inr (), s\<lparr>instance' := Some (i\<lparr>buffer := b\<rparr>)\<rparr>)))"

definition mem_read :: "go \<Rightarrow> (arraybuffer \<Rightarrow> exn + 'a) \<Rightarrow> exn + 'a" where
  "mem_read s f = (case memRaw s of Inl e \<Rightarrow> Inl e | Inr b \<Rightarrow> f b)"

definition getInt32 :: "go \<Rightarrow> int \<Rightarrow> exn + int" where
  "getInt32 s addr = mem_read s (\<lambda>b. dv_getInt32 b (addr + 0))"

text \<open>
  The two halves are integers, and so is the result here. In a double the sum is exact as
  long as it is below \<open>2 ^ 53\<close> in magnitude, the range the claims are about; beyond
  that the host rounds it.
\<close>

definition getInt64 :: "go \<Rightarrow> int \<Rightarrow> exn + int" where
  "getInt64 s addr =
     (case getInt32 s (addr + 0) of
        Inl e \<Rightarrow> Inl e
      | Inr low \<Rightarrow>
          (case getInt32 s (addr + 4) of
             Inl e \<Rightarrow> Inl e
           | Inr high \<Rightarrow> Inr (low + high * 4294967296)))"

definition getUint32 :: "go \<Rightarrow> int \<Rightarrow> exn + int" where
  "getUint32 s addr = mem_read s (\<lambda>b. dv_getUint32 b (addr + 0))"

definition getUint8 :: "go \<Rightarrow> int \<Rightarrow> exn + int" where
  "getUint8 s addr = mem_read s (\<lambda>b. dv_getUint8 b addr)"

definition getFloat64 :: "go \<Rightarrow> int \<Rightarrow> exn + 64 word" where
  "getFloat64 s addr = mem_read s (\<lambda>b. dv_getFloat64 b addr)"

definition setUint8 :: "go \<Rightarrow> int \<Rightarrow> int \<Rightarrow> unit outcome" where
  "setUint8 s addr val = mem_update s (\<lambda>b. dv_setUint8 b (addr + 0) val)"

definition setInt32 :: "go \<Rightarrow> int \<Rightarrow> int \<Rightarrow> unit outcome" where
  "setInt32 s addr val = mem_update s (\<lambda>b. dv_setInt32 b (addr + 0) val)"

definition setUint32 :: "go \<Rightarrow> int \<Rightarrow> int \<Rightarrow> unit outcome" where
  "setUint32 s addr val = mem_update s (\<lambda>b. dv_setUint32 b (addr + 0) val)"

text \<open>
  \<^verbatim>\<open>Math.floor(val / 4294967296)\<close> is \<open>val div 4294967296\<close> on an integer: the division of
  a double by a power of two is exact.
\<close>

definition setInt64 :: "go \<Rightarrow> int \<Rightarrow> int \<Rightarrow> unit outcome" where
  "setInt64 s addr val =
     andThen (setUint32 s (addr + 0) val) (\<lambda>u s1. setUint32 s1 (addr + 4) (val div 4294967296))"

definition setFloat64 :: "go \<Rightarrow> int \<Rightarrow> 64 word \<Rightarrow> unit outcome" where
  "setFloat64 s addr val = mem_update s (\<lambda>b. dv_setFloat64 b (addr + 0) val)"

subsection \<open>The Value Table\<close>

definition loadValue :: "go \<Rightarrow> int \<Rightarrow> exn + jsval" where
  "loadValue s addr =
     (case getFloat64 s addr of
        Inl e \<Rightarrow> Inl e
      | Inr f \<Rightarrow>
          if \<not> isNaN f then Inr (JNumber f)
          else (case getUint32 s addr of
                  Inl e \<Rightarrow> Inl e
                | Inr ident \<Rightarrow>
                    (case values' s of
                       None \<Rightarrow> Inl TypeError
                     | Some vs \<Rightarrow>
                         if ident < int (length vs) then Inr (vs ! nat ident)
                         else Inr JUndefined)))"

definition nanHead :: int where
  "nanHead = 0x7FF80000"

text \<open>
  Lines 411 to 417 of \<^verbatim>\<open>storeValue\<close>: the index of \<open>v\<close> in \<^verbatim>\<open>_refs\<close>, or a new entry
  at the end of \<^verbatim>\<open>_values\<close>. A host array holds at most \<open>2 ^ 32 - 1\<close> elements:
  \<^verbatim>\<open>push\<close> on a full one raises \<^verbatim>\<open>RangeError\<close>.
\<close>

definition internRef :: "go \<Rightarrow> jsval \<Rightarrow> nat outcome" where
  "internRef s v =
     (case refs s of
        None \<Rightarrow> (Inl TypeError, s)
      | Some rs \<Rightarrow>
          (case rs v of
             Some r \<Rightarrow> (Inr r, s)
           | None \<Rightarrow>
               (case values' s of
                  None \<Rightarrow> (Inl TypeError, s)
                | Some vs \<Rightarrow>
                    if length vs \<ge> 2 ^ 32 - 1 then (Inl RangeError, s)
                    else (Inr (length vs),
                          s\<lparr>values' := Some (vs @ [v]), refs := Some (rs(v \<mapsto> length vs))\<rparr>))))"

definition typeFlag :: "jsval \<Rightarrow> int" where
  "typeFlag v =
     (if typeof v = ''string'' then 1
      else if typeof v = ''symbol'' then 2
      else if typeof v = ''function'' then 3
      else 0)"

text \<open>
  The two writes every boxed case of \<^verbatim>\<open>storeValue\<close> ends with: the tag in the high word,
  then the index in the low word.
\<close>

definition storeBoxed :: "go \<Rightarrow> int \<Rightarrow> int \<Rightarrow> int \<Rightarrow> unit outcome" where
  "storeBoxed s addr head low =
     andThen (setUint32 s (addr + 4) head) (\<lambda>u s1. setUint32 s1 addr low)"

fun storeValue :: "go \<Rightarrow> int \<Rightarrow> jsval \<Rightarrow> unit outcome" where
  "storeValue s addr (JNumber w) =
     (if isNaN w then storeBoxed s addr nanHead 0 else setFloat64 s addr w)"
| "storeValue s addr JUndefined = storeBoxed s addr nanHead 1"
| "storeValue s addr JNull = storeBoxed s addr nanHead 2"
| "storeValue s addr (JBool True) = storeBoxed s addr nanHead 3"
| "storeValue s addr (JBool False) = storeBoxed s addr nanHead 4"
| "storeValue s addr v =
     andThen (internRef s v) (\<lambda>r s1. storeBoxed s1 addr (nanHead OR typeFlag v) (int r))"

subsection \<open>Runtime imports\<close>

text \<open>
  \<^verbatim>\<open>wasmExit\<close> deletes \<^verbatim>\<open>_values\<close> and \<^verbatim>\<open>_refs\<close>; the \<^verbatim>\<open>_inst\<close> it also deletes is a
  property that no code assigns, so \<^verbatim>\<open>instance\<close> stays. It does not touch \<^verbatim>\<open>running\<close>.
  The call of the embedder's \<^verbatim>\<open>exit\<close> callback is logged; the callback may throw.
\<close>

definition wasmExit :: "go \<Rightarrow> int \<Rightarrow> unit outcome" where
  "wasmExit s addr =
     (case getInt32 s (addr + 8) of
        Inl e \<Rightarrow> (Inl e, s)
      | Inr code \<Rightarrow>
          (let s1 = s\<lparr>exited := True, values' := None, refs := None,
                      exit_codes := exit_codes s @ [code]\<rparr>
           in case exit_cb s1 code of None \<Rightarrow> (Inr (), s1) | Some e \<Rightarrow> (Inl e, s1)))"

text \<open>
  \<^verbatim>\<open>scheduleCallback\<close>, in the order JavaScript evaluates it: the id is read and
  incremented; the method \<^verbatim>\<open>set\<close> is looked up on \<^verbatim>\<open>this._callbackTimeouts\<close>, which raises
  \<^verbatim>\<open>TypeError\<close> when that is \<^verbatim>\<open>undefined\<close>; then the arguments are evaluated (the delay
  is read from memory, \<^verbatim>\<open>setTimeout\<close> registers the timer), the map is updated, and the
  id is written back.
\<close>

definition scheduleCallback :: "go \<Rightarrow> int \<Rightarrow> unit outcome" where
  "scheduleCallback s addr =
     (let ident = nextCallbackTimeoutID s;
          s1 = s\<lparr>nextCallbackTimeoutID := incr ident\<rparr>
      in case callbackTimeouts s1 of
           None \<Rightarrow> (Inl TypeError, s1)
         | Some m \<Rightarrow>
             (case getInt64 s1 (addr + 8) of
                Inl e \<Rightarrow> (Inl e, s1)
              | Inr d \<Rightarrow>
                  (let h = next_handle s1;
                       s2 = s1\<lparr>timers := timers s1 @ [(h, d + 1, CallbackTimer)],
                                next_handle := h + 1,
                                callbackTimeouts := Some (m(ident \<mapsto> h))\<rparr>
                   in setInt32 s2 (addr + 16) (toInt32 ident))))"

definition clearScheduledCallback :: "go \<Rightarrow> int \<Rightarrow> unit outcome" where
  "clearScheduledCallback s addr =
     (case mem_read s (\<lambda>b. dv_getInt32 b (addr + 8)) of
        Inl e \<Rightarrow> (Inl e, s)
      | Inr ident \<Rightarrow>
          (case callbackTimeouts s of
             None \<Rightarrow> (Inl TypeError, s)
           | Some m \<Rightarrow>
               (let s1 = (case m (Num ident) of
                            None \<Rightarrow> s
                          | Some h \<Rightarrow> s\<lparr>timers := filter (\<lambda>t. fst t \<noteq> h) (timers s)\<rparr>)
                in (Inr (), s1\<lparr>callbackTimeouts := Some (m(Num ident := None))\<rparr>))))"

subsection \<open>Reflective calls\<close>

text \<open>The bytes of a view \<^verbatim>\<open>new DataView(buffer, off, n)\<close> or \<^verbatim>\<open>new Uint8Array(buffer, off, n)\<close>.\<close>

definition view_bytes :: "arraybuffer \<Rightarrow> int \<Rightarrow> int \<Rightarrow> exn + 8 word list" where
  "view_bytes b off n =
     (if 0 \<le> n \<and> dv_ok b off n then Inr (map (bytes b) [off..off + n - 1])
      else Inl RangeError)"

definition loadString :: "host \<Rightarrow> go \<Rightarrow> int \<Rightarrow> exn + string" where
  "loadString h s addr =
     (case getInt64 s (addr + 0) of
        Inl e \<Rightarrow> Inl e
      | Inr saddr \<Rightarrow>
          (case getInt64 s (addr + 8) of
             Inl e \<Rightarrow> Inl e
           | Inr len \<Rightarrow>
               (case mem_read s (\<lambda>b. view_bytes b saddr len) of
                  Inl e \<Rightarrow> Inl e
                | Inr bs \<Rightarrow> Inr (text_decode h bs))))"

text \<open>The loop of \<^verbatim>\<open>loadSliceOfValues\<close>: \<open>n\<close> slots of eight bytes from \<open>a\<close> on.\<close>

fun loadValues :: "go \<Rightarrow> int \<Rightarrow> nat \<Rightarrow> exn + jsval list" where
  "loadValues s a 0 = Inr []"
| "loadValues s a (Suc n) =
     (case loadValue s a of
        Inl e \<Rightarrow> Inl e
      | Inr v \<Rightarrow> (case loadValues s (a + 8) n of Inl e \<Rightarrow> Inl e | Inr vs \<Rightarrow> Inr (v # vs)))"

text \<open>\<^verbatim>\<open>new Array(len)\<close> raises \<^verbatim>\<open>RangeError\<close> unless \<open>0 \<le> len < 2 ^ 32\<close>.\<close>

definition loadSliceOfValues :: "go \<Rightarrow> int \<Rightarrow> exn + jsval list" where
  "loadSliceOfValues s addr =
     (case getInt64 s (addr + 0) of
        Inl e \<Rightarrow> Inl e
      | Inr array \<Rightarrow>
          (case getInt64 s (addr + 8) of
             Inl e \<Rightarrow> Inl e
           | Inr len \<Rightarrow>
               if len < 0 \<or> 2 ^ 32 \<le> len then Inl RangeError
               else loadValues s array (nat len)))"

text \<open>\<^verbatim>\<open>obj[name]\<close>: a \<^verbatim>\<open>TypeError\<close> on \<^verbatim>\<open>undefined\<close> and \<^verbatim>\<open>null\<close>, else the host's answer.\<close>

definition property :: "host \<Rightarrow> jsval \<Rightarrow> string \<Rightarrow> exn + jsval" where
  "property h obj name =
     (if obj = JUndefined \<or> obj = JNull then Inl TypeError
      else (case get_prop h obj name of Inl v \<Rightarrow> Inl (Thrown v) | Inr m \<Rightarrow> Inr m))"

definition host_result :: "jsval + jsval \<Rightarrow> exn + jsval" where
  "host_result r = (case r of Inl v \<Rightarrow> Inl (Thrown v) | Inr x \<Rightarrow> Inr x)"

text \<open>The value that \<^verbatim>\<open>catch (err)\<close> binds.\<close>

definition caught :: "host \<Rightarrow> exn \<Rightarrow> jsval" where
  "caught h e = (case e of Thrown v \<Rightarrow> v | _ \<Rightarrow> error_object h e)"

text \<open>
  The last two statements of each \<^verbatim>\<open>try\<close> and \<^verbatim>\<open>catch\<close> block: the result slot, then the
  flag in the byte after it.
\<close>

definition storeResult :: "go \<Rightarrow> int \<Rightarrow> jsval \<Rightarrow> int \<Rightarrow> unit outcome" where
  "storeResult s slot v ok =
     andThen (storeValue s slot v) (\<lambda>u s1. setUint8 s1 (slot + 8) ok)"

text \<open>The operands each operation decodes before it calls the host.\<close>

definition valueCall_operands :: "host \<Rightarrow> go \<Rightarrow> int \<Rightarrow> exn + (jsval \<times> jsval \<times> jsval list)" where
  "valueCall_operands h s addr =
     (case loadValue s (addr + 8) of
        Inl e \<Rightarrow> Inl e
      | Inr obj \<Rightarrow>
          (case loadString h s (addr + 16) of
             Inl e \<Rightarrow> Inl e
           | Inr name \<Rightarrow>
               (case property h obj name of
                  Inl e \<Rightarrow> Inl e
                | Inr method \<Rightarrow>
                    (case loadSliceOfValues s (addr + 32) of
                       Inl e \<Rightarrow> Inl e
                     | Inr args \<Rightarrow> Inr (method, obj, args)))))"

definition valueInvoke_operands :: "go \<Rightarrow> int \<Rightarrow> exn + (jsval \<times> jsval list)" where
  "valueInvoke_operands s addr =
     (case loadValue s (addr + 8) of
        Inl e \<Rightarrow> Inl e
      | Inr obj \<Rightarrow>
          (case loadSliceOfValues s (addr + 16) of
             Inl e \<Rightarrow> Inl e
           | Inr args \<Rightarrow> Inr (obj, args)))"

definition valueCall_try :: "host \<Rightarrow> go \<Rightarrow> int \<Rightarrow> unit outcome" where
  "valueCall_try h s addr =
     (case valueCall_operands h s addr of
        Inl e \<Rightarrow> (Inl e, s)
      | Inr (method, obj, args) \<Rightarrow>
          (case host_result (reflect_apply h method obj args) of
             Inl e \<Rightarrow> (Inl e, s)
           | Inr r \<Rightarrow> storeResult s (addr + 56) r 1))"

definition valueCall :: "host \<Rightarrow> go \<Rightarrow> int \<Rightarrow> unit outcome" where
  "valueCall h s addr =
     (case valueCall_try h s addr of
        (Inl e, s1) \<Rightarrow> storeResult s1 (addr + 56) (caught h e) 0
      | (Inr u, s1) \<Rightarrow> (Inr u, s1))"

definition valueInvoke_try :: "host \<Rightarrow> go \<Rightarrow> int \<Rightarrow> unit outcome" where
  "valueInvoke_try h s addr =
     (case valueInvoke_operands s addr of
        Inl e \<Rightarrow> (Inl e, s)
      | Inr (obj, args) \<Rightarrow>
          (case host_result (reflect_apply h obj JUndefined args) of
             Inl e \<Rightarrow> (Inl e, s)
           | Inr r \<Rightarrow> storeResult s (addr + 40) r 1))"

definition valueInvoke :: "host \<Rightarrow> go \<Rightarrow> int \<Rightarrow> unit outcome" where
  "valueInvoke h s addr =
     (case valueInvoke_try h s addr of
        (Inl e, s1) \<Rightarrow> storeResult s1 (addr + 40) (caught h e) 0
      | (Inr u, s1) \<Rightarrow> (Inr u, s1))"

definition valueNew_try :: "host \<Rightarrow> go \<Rightarrow> int \<Rightarrow> unit outcome" where
  "valueNew_try h s addr =
     (case valueInvoke_operands s addr of
        Inl e \<Rightarrow> (Inl e, s)
      | Inr (obj, args) \<Rightarrow>
          (case host_result (reflect_construct h obj args) of
             Inl e \<Rightarrow> (Inl e, s)
           | Inr r \<Rightarrow> storeResult s (addr + 40) r 1))"

definition valueNew :: "host \<Rightarrow> go \<Rightarrow> int \<Rightarrow> unit outcome" where
  "valueNew h s addr =
     (case valueNew_try h s addr of
        (Inl e, s1) \<Rightarrow> storeResult s1 (addr + 40) (caught h e) 0
      | (Inr u, s1) \<Rightarrow> (Inr u, s1))"

subsection \<open>The guest's calls\<close>

text \<open>The effects of the other imports, in order; the first that raises ends the call.\<close>

fun exec_effect :: "go \<Rightarrow> effect \<Rightarrow> unit outcome" where
  "exec_effect s (StoreValue addr v) = storeValue s addr v"
| "exec_effect s (SetInt64 addr v) = setInt64 s addr v"
| "exec_effect s (SetInt32 addr v) = setInt32 s addr v"
| "exec_effect s (SetUint8 addr v) = setUint8 s addr v"
| "exec_effect s (WriteBytes addr bs) = mem_update s (\<lambda>b. dv_write b addr bs)"

fun exec_effects :: "go \<Rightarrow> effect list \<Rightarrow> unit outcome" where
  "exec_effects s [] = (Inr (), s)"
| "exec_effects s (e # es) = andThen (exec_effect s e) (\<lambda>u s1. exec_effects s1 es)"

text \<open>A call of an import by the guest, through \<^verbatim>\<open>golangProxy\<close>.\<close>

fun exec_call :: "go \<Rightarrow> call \<Rightarrow> unit outcome" where
  "exec_call s (WasmExit addr) = wasmExit s addr"
| "exec_call s (ScheduleCallback addr) = scheduleCallback s addr"
| "exec_call s (ClearScheduledCallback addr) = clearScheduledCallback s addr"
| "exec_call s (ValueCall h addr) = valueCall h s addr"
| "exec_call s (ValueInvoke h addr) = valueInvoke h s addr"
| "exec_call s (ValueNew h addr) = valueNew h s addr"
| "exec_call s (Other es) = exec_effects s es"

text \<open>The calls of one invocation, in order; the first that raises ends the invocation.\<close>

fun exec_calls :: "go \<Rightarrow> call list \<Rightarrow> unit outcome" where
  "exec_calls s [] = (Inr (), s)"
| "exec_calls s (c # cs) = andThen (exec_call s c) (\<lambda>u s1. exec_calls s1 cs)"


subsection \<open>The run loop\<close>

text \<open>
  The parameters of \<^verbatim>\<open>run\<close> modelled here: strings, and numbers that are integers.
  \<^verbatim>\<open>JSON.stringify\<close> quotes and escapes a string and prints an integer in decimal.
\<close>

datatype param = PString string | PInt int

definition hex_digit :: "nat \<Rightarrow> char" where
  "hex_digit n = ''0123456789abcdef'' ! (n mod 16)"

fun show_nat :: "nat \<Rightarrow> string" where
  "show_nat n = (if n < 10 then [hex_digit n] else show_nat (n div 10) @ [hex_digit (n mod 10)])"

definition show_int :: "int \<Rightarrow> string" where
  "show_int k = (if k < 0 then CHR ''-'' # show_nat (nat (- k)) else show_nat (nat k))"

definition json_escape :: "char \<Rightarrow> string" where
  "json_escape c =
     (let n = (of_char c :: nat) in
      if n = 8 then [CHR 0x5C, CHR ''b'']
      else if n = 9 then [CHR 0x5C, CHR ''t'']
      else if n = 10 then [CHR 0x5C, CHR ''n'']
      else if n = 12 then [CHR 0x5C, CHR ''f'']
      else if n = 13 then [CHR 0x5C, CHR ''r'']
      else if n = 34 then [CHR 0x5C, CHR 0x22]
      else if n = 92 then [CHR 0x5C, CHR 0x5C]
      else if n < 32 then [CHR 0x5C, CHR ''u'', CHR ''0'', CHR ''0'', hex_digit (n div 16),
        hex_digit n]
      else [c])"

fun JSON_stringify :: "param \<Rightarrow> string" where
  "JSON_stringify (PString x) = CHR 0x22 # concat (map json_escape x) @ [CHR 0x22]"
| "JSON_stringify (PInt k) = show_int k"

text \<open>\<^verbatim>\<open>encoder.encode\<close>: UTF-8, on code units below 256.\<close>

definition utf8_char :: "char \<Rightarrow> 8 word list" where
  "utf8_char c =
     (let n = (of_char c :: nat) in
      if n < 128 then [of_nat n] else [of_nat (192 + n div 64), of_nat (128 + n mod 64)])"

definition utf8_encode :: "string \<Rightarrow> 8 word list" where
  "utf8_encode x = concat (map utf8_char x)"

text \<open>
  \<^verbatim>\<open>strPtr\<close>, with the \<^verbatim>\<open>offset\<close> it closes over passed in and returned: the pointer and
  the new offset. The view of \<open>str.length + 1\<close> bytes must lie in the buffer, and
  \<^verbatim>\<open>set\<close> raises \<^verbatim>\<open>RangeError\<close> when the encoded bytes are more than the view holds
  (a string with a code unit of 128 or more).
\<close>

definition strPtr :: "go \<Rightarrow> int \<Rightarrow> string \<Rightarrow> (int \<times> int) outcome" where
  "strPtr s offset str =
     (let n = int (length str) in
      case instance' s of
        None \<Rightarrow> (Inl TypeError, s)
      | Some i \<Rightarrow>
          if \<not> dv_ok (buffer i) offset (n + 1) then (Inl RangeError, s)
          else (let enc = utf8_encode (str @ [CHR 0x00]) in
                if int (length enc) > n + 1 then (Inl RangeError, s)
                else (Inr (offset, offset + (n + (8 - n mod 8))),
                      s\<lparr>instance' := Some (i\<lparr>buffer := (buffer i)
                          \<lparr>bytes := write_bytes (bytes (buffer i)) offset enc\<rparr>\<rparr>)\<rparr>)))"

fun strPtrs :: "go \<Rightarrow> int \<Rightarrow> string list \<Rightarrow> (int list \<times> int) outcome" where
  "strPtrs s offset [] = (Inr ([], offset), s)"
| "strPtrs s offset (x # xs) =
     andThen (strPtr s offset x) (\<lambda>(p, off1) s1.
       andThen (strPtrs s1 off1 xs) (\<lambda>(ps, off2) s2. (Inr (p # ps, off2), s2)))"

text \<open>The loop that writes the pointers, eight bytes each.\<close>

fun writePtrs :: "go \<Rightarrow> int \<Rightarrow> int list \<Rightarrow> int outcome" where
  "writePtrs s offset [] = (Inr offset, s)"
| "writePtrs s offset (p # ps) =
     andThen (setUint32 s offset p) (\<lambda>u s1.
       andThen (setUint32 s1 (offset + 4) 0) (\<lambda>u s2. writePtrs s2 (offset + 8) ps))"

text \<open>\<^verbatim>\<open>`${key}=${this.env[key]}`\<close> for a key of \<^verbatim>\<open>this.env\<close>.\<close>

definition env_entry :: "(string \<times> string) list \<Rightarrow> string \<Rightarrow> string" where
  "env_entry e key =
     key @ ''='' @ (case map_of e key of None \<Rightarrow> ''undefined'' | Some v \<Rightarrow> v)"

text \<open>
  Lines 67 to 98 of \<^verbatim>\<open>run\<close>: the strings from offset 4096 on, then the pointers. The
  result is \<^verbatim>\<open>argc\<close> and \<^verbatim>\<open>argv\<close>. \<^verbatim>\<open>Object.keys(this.env).sort()\<close> is the sorted list
  of the keys, each once; the default order of \<^verbatim>\<open>sort\<close> on strings is the lexicographic
  order of their code units.
\<close>

definition marshal :: "go \<Rightarrow> param list \<Rightarrow> (int \<times> int) outcome" where
  "marshal s params =
     (let args = PString ''main.wasm'' # params;
          argc = int (length args)
      in andThen (strPtrs s 4096 (map JSON_stringify args)) (\<lambda>(argvPtrs, off1) s1.
           let keys = sort (remdups (map fst (env s1)))
           in andThen (strPtrs s1 off1 (map (env_entry (env s1)) keys)) (\<lambda>(envPtrs, off2) s2.
                andThen (writePtrs s2 off2 (argvPtrs @ [int (length keys)] @ envPtrs))
                  (\<lambda>off3 s3. (Inr (argc, off2), s3)))))"

text \<open>
  \<^verbatim>\<open>this.instance.exports.run(argc, argv)\<close>: the invocation is logged and the guest makes
  the calls of its next invocation.
\<close>

definition invokeEntry :: "go \<Rightarrow> int \<Rightarrow> int \<Rightarrow> unit outcome" where
  "invokeEntry s argc argv =
     (case instance' s of
        None \<Rightarrow> (Inl TypeError, s)
      | Some i \<Rightarrow>
          exec_calls
            (s\<lparr>instance' := Some (i\<lparr>guest := tl (guest i)\<rparr>),
               entry_calls := entry_calls s @ [(argc, argv)]\<rparr>)
            (case guest i of [] \<Rightarrow> [] | cs # rest \<Rightarrow> cs))"

datatype run_status = Finished | Suspended

text \<open>
  One iteration of the \<^verbatim>\<open>while (true)\<close>: a new promise, whose \<^verbatim>\<open>resolve\<close> the new
  \<^verbatim>\<open>_resolveCallbackPromise\<close> holds; the invocation; then the \<^verbatim>\<open>break\<close>, or the
  \<^verbatim>\<open>await\<close> that leaves the loop suspended on the promise.
\<close>

definition run_iteration :: "go \<Rightarrow> int \<Rightarrow> int \<Rightarrow> run_status outcome" where
  "run_iteration s argc argv =
     (let p = next_promise s;
          s1 = s\<lparr>next_promise := p + 1, resolveCallbackPromise := Some p\<rparr>
      in andThen (invokeEntry s1 argc argv) (\<lambda>u s2.
           if exited s2 then (Inr Finished, s2)
           else (Inr Suspended, s2\<lparr>suspended := suspended s2 @ [(p, argc, argv)]\<rparr>)))"

text \<open>The body of \<^verbatim>\<open>run\<close>, once \<^verbatim>\<open>__loadPromise\<close> is resolved.\<close>

definition run :: "go \<Rightarrow> param list \<Rightarrow> run_status outcome" where
  "run s params =
     (if running s \<noteq> False then (Inl (Error ''Go Module already running''), s)
      else andThen (marshal (s\<lparr>running := True\<rparr>) params) (\<lambda>(argc, argv) s1.
             run_iteration s1 argc argv))"

text \<open>
  A call of the function in \<^verbatim>\<open>this._resolveCallbackPromise\<close>: \<^verbatim>\<open>TypeError\<close> when no
  iteration has assigned it; the \<^verbatim>\<open>Error\<close> after exit; else \<^verbatim>\<open>setTimeout(resolve, 0)\<close>.
\<close>

definition call_resolveCallbackPromise :: "go \<Rightarrow> unit outcome" where
  "call_resolveCallbackPromise s =
     (case resolveCallbackPromise s of
        None \<Rightarrow> (Inl TypeError, s)
      | Some p \<Rightarrow>
          if exited s then (Inl (Error ''bad callback: Go program has already exited''), s)
          else (Inr (), s\<lparr>timers := timers s @ [(next_handle s, 0, ResolvePromise p)],
                          next_handle := next_handle s + 1\<rparr>))"

text \<open>
  The promise \<open>p\<close> is resolved: the loop suspended on it, if there is one, goes into its
  next iteration.
\<close>

definition resume :: "go \<Rightarrow> nat \<Rightarrow> unit outcome" where
  "resume s p =
     (case find (\<lambda>l. fst l = p) (suspended s) of
        None \<Rightarrow> (Inr (), s)
      | Some (q, argc, argv) \<Rightarrow>
          andThen (run_iteration (s\<lparr>suspended := filter (\<lambda>l. fst l \<noteq> p) (suspended s)\<rparr>)
            argc argv) (\<lambda>st s1. (Inr (), s1)))"

text \<open>The host fires the timer of handle \<open>h\<close>: it is removed and its callback runs.\<close>

definition fire_timer :: "go \<Rightarrow> nat \<Rightarrow> unit outcome" where
  "fire_timer s h =
     (case find (\<lambda>t. fst t = h) (timers s) of
        None \<Rightarrow> (Inr (), s)
      | Some (k, d, tk) \<Rightarrow>
          (let s1 = s\<lparr>timers := filter (\<lambda>t. fst t \<noteq> h) (timers s)\<rparr>
           in case tk of
                CallbackTimer \<Rightarrow> call_resolveCallbackPromise s1
              | ResolvePromise p \<Rightarrow> resume s1 p))"

text \<open>
  What can happen to a bridge object between two turns of the host's event loop: the
  embedder calls \<^verbatim>\<open>run\<close> or \<^verbatim>\<open>reset\<close>, the instantiation that a \<^verbatim>\<open>load\<close> awaits is
  resolved, a timer fires, or host code calls the resolver or one of the imports directly.
  \<open>step\<close> is the state after the event, whether it raised or not.
\<close>

datatype event =
    RunEvent "param list"
  | ResetEvent
  | LoadedEvent wasm_instance
  | TimerEvent nat
  | ResolverEvent
  | ImportEvent call

fun step :: "go \<Rightarrow> event \<Rightarrow> go" where
  "step s (RunEvent ps) = snd (run s ps)"
| "step s ResetEvent = reset s"
| "step s (LoadedEvent inst) = load_finish s inst"
| "step s (TimerEvent h) = snd (fire_timer s h)"
| "step s ResolverEvent = snd (call_resolveCallbackPromise s)"
| "step s (ImportEvent c) = snd (exec_call s c)"

fun is_reset :: "event \<Rightarrow> bool" where
  "is_reset ResetEvent = True"
| "is_reset e = False"



section \<open>Well-formed states\<close>

text \<open>
  The Value Table as \<^verbatim>\<open>load\<close> leaves it and \<^verbatim>\<open>storeValue\<close> keeps it: both structures exist,
  the array is no longer than a host array can be, its first five entries are the
  reserved primitives, and every index recorded in \<^verbatim>\<open>_refs\<close> designates, in \<^verbatim>\<open>_values\<close>,
  the value it is recorded for.
\<close>

definition table_ok :: "go \<Rightarrow> bool" where
  "table_ok s \<longleftrightarrow>
     (case values' s of
        None \<Rightarrow> False
      | Some vs \<Rightarrow>
          (case refs s of
             None \<Rightarrow> False
           | Some rs \<Rightarrow>
               length vs \<le> 2 ^ 32 - 1
               \<and> take 5 vs = [NaN, JUndefined, JNull, JBool True, JBool False]
               \<and> (\<forall>v r. rs v = Some r \<longrightarrow> r < length vs \<and> vs ! r = v)))"

text \<open>The \<open>n\<close> bytes from \<open>addr\<close> on lie in the memory of the instance.\<close>

definition mem_ok :: "go \<Rightarrow> int \<Rightarrow> int \<Rightarrow> bool" where
  "mem_ok s addr n \<longleftrightarrow> (case instance' s of None \<Rightarrow> False | Some i \<Rightarrow> dv_ok (buffer i) addr n)"

text \<open>\<^verbatim>\<open>this._refs.get(v)\<close>, and whether it finds an index: the value is interned.\<close>

definition ref_of :: "go \<Rightarrow> jsval \<Rightarrow> nat option" where
  "ref_of s v = (case refs s of None \<Rightarrow> None | Some rs \<Rightarrow> rs v)"

definition interned :: "go \<Rightarrow> jsval \<Rightarrow> bool" where
  "interned s v \<longleftrightarrow> ref_of s v \<noteq> None"

text \<open>\<^verbatim>\<open>push\<close> can add an entry to \<^verbatim>\<open>_values\<close>.\<close>

definition has_room :: "go \<Rightarrow> bool" where
  "has_room s \<longleftrightarrow> (case values' s of None \<Rightarrow> False | Some vs \<Rightarrow> length vs < 2 ^ 32 - 1)"

section \<open>Example states\<close>

text \<open>
  A zeroed memory of \<open>n\<close> bytes; an instance over it whose guest makes no call, and one
  whose guest calls \<^verbatim>\<open>wasmExit\<close> in its first invocation; a bridge object constructed and
  loaded with the former.
\<close>

definition zero_buffer :: "int \<Rightarrow> arraybuffer" where
  "zero_buffer n = \<lparr>byteLength = n, bytes = (\<lambda>a. 0)\<rparr>"

definition idle_instance :: "int \<Rightarrow> wasm_instance" where
  "idle_instance n = \<lparr>exports_mem = JObject 1, buffer = zero_buffer n, guest = []\<rparr>"

definition fresh :: "int \<Rightarrow> go" where
  "fresh n = load (constructor (JObject 2)) (idle_instance n)"

definition exiting_instance :: "int \<Rightarrow> wasm_instance" where
  "exiting_instance n = \<lparr>exports_mem = JObject 1, buffer = zero_buffer n, guest = [[WasmExit 0]]\<rparr>"

section \<open>Predicates of the claims\<close>

text \<open>
  Flags that no operation but \<^verbatim>\<open>load\<close> clears: \<open>persists s s'\<close> when each of them that
  holds in \<open>s\<close> holds in \<open>s'\<close>.
\<close>

definition persists :: "go \<Rightarrow> go \<Rightarrow> bool" where
  "persists s s' \<longleftrightarrow>
     (running s \<longrightarrow> running s') \<and> (exited s \<longrightarrow> exited s') \<and> (loaded s \<longrightarrow> loaded s')
     \<and> (callbackTimeouts s = None \<longrightarrow> callbackTimeouts s' = None)
     \<and> (resolveCallbackPromise s \<noteq> None \<longrightarrow> resolveCallbackPromise s' \<noteq> None)"



text \<open>
  What C6 asks of a dispatch operation, given what the host operation did (\<open>Inl e\<close>: it
  raised \<open>e\<close>): nothing is raised, the value read back from the result slot is the raised
  value with flag 0, or the returned value with flag 1.
\<close>

definition dispatched :: "unit outcome \<Rightarrow> int \<Rightarrow> jsval + jsval \<Rightarrow> bool" where
  "dispatched out slot res \<longleftrightarrow>
     fst out = Inr ()
     \<and> (case res of
          Inl e \<Rightarrow> (\<exists>w. loadValue (snd out) slot = Inr w \<and> obs_eq w e)
                   \<and> getUint8 (snd out) (slot + 8) = Inr 0
        | Inr r \<Rightarrow> (\<exists>w. loadValue (snd out) slot = Inr w \<and> obs_eq w r)
                   \<and> getUint8 (snd out) (slot + 8) = Inr 1)"

text \<open>A host whose calls raise the string \<^verbatim>\<open>boom\<close> and whose constructions succeed.\<close>

definition raising_host :: host where
  "raising_host = \<lparr>reflect_apply = (\<lambda>f this args. Inl (JString ''boom'')),
     reflect_construct = (\<lambda>f args. Inr (JObject 9)),
     get_prop = (\<lambda>obj name. Inr (JFunction 1)),
     text_decode = (\<lambda>bs. map (\<lambda>b. char_of (unat b)) bs),
     error_object = (\<lambda>e. JObject 99)\<rparr>"

text \<open>
  The reference decoder of the argv block, as the spec describes the block: \<open>argc\<close> pairs
  (pointer, zero) at strides of eight bytes from \<open>argv\<close>, each pointer to a string that
  ends at its first zero byte; then a count, and that many pointers to \<^verbatim>\<open>key=value\<close>
  strings. It is not part of \<^verbatim>\<open>Go.js\<close>; the guest reads the block this way.
\<close>

fun cstring :: "(int \<Rightarrow> 8 word) \<Rightarrow> int \<Rightarrow> nat \<Rightarrow> string" where
  "cstring f a 0 = []"
| "cstring f a (Suc n) = (if f a = 0 then [] else char_of (unat (f a)) # cstring f (a + 1) n)"

definition ref_decode :: "arraybuffer \<Rightarrow> int \<Rightarrow> int \<Rightarrow> string list \<times> int \<times> string list" where
  "ref_decode b argc argv =
     (let slot = (\<lambda>k. le_read (bytes b) (argv + 8 * k) 4);
          str = (\<lambda>p. cstring (bytes b) p (nat (byteLength b - p)));
          count = slot argc
      in (map (\<lambda>k. str (slot (int k))) [0..<nat argc],
          count,
          map (\<lambda>k. str (slot (argc + 1 + int k))) [0..<nat count]))"

definition decoded :: "go \<Rightarrow> int \<Rightarrow> int \<Rightarrow> exn + string list \<times> int \<times> string list" where
  "decoded s argc argv =
     (case memRaw s of Inl e \<Rightarrow> Inl e | Inr b \<Rightarrow> Inr (ref_decode b argc argv))"

text \<open>The environment \<^verbatim>\<open>{"A": "1"}\<close>, as the embedder sets it before \<^verbatim>\<open>run\<close>.\<close>

definition env_A1 :: "go \<Rightarrow> go" where
  "env_A1 s = s\<lparr>env := [(''A'', ''1'')]\<rparr>"


section \<open>Memory accessors\<close>

lemma le_write_other: "x < a \<or> a + int n \<le> x \<Longrightarrow> le_write f a n v x = f x"
  by (induction n arbitrary: f a v) auto

lemma le_read_cong: "(\<And>x. a \<le> x \<Longrightarrow> x < a + int n \<Longrightarrow> f x = g x) \<Longrightarrow> le_read f a n = le_read g a n"
  by (induction n arbitrary: a) auto

lemma le_read_le_write: "le_read (le_write f a n v) a n = v mod 256 ^ n"
proof (induction n arbitrary: f a v)
  case 0 show ?case by simp
next
  case (Suc n)
  let ?g = "le_write (f(a := word_of_int v)) (a + 1) n (v div 256)"
  have h: "?g a = (word_of_int v :: 8 word)"
    by (simp add: le_write_other)
  have u: "uint (word_of_int v :: 8 word) = v mod 256"
    by (simp add: uint_word_of_int)
  have r: "le_read ?g (a + 1) n = (v div 256) mod 256 ^ n"
    by (rule Suc.IH)
  have "le_read (le_write f a (Suc n) v) a (Suc n) = uint (?g a) + 256 * le_read ?g (a + 1) n"
    by simp
  also have "\<dots> = v mod 256 + 256 * ((v div 256) mod 256 ^ n)"
    by (simp only: h u r)
  also have "\<dots> = v mod 256 ^ Suc n"
    using zmod_zmult2_eq[of "256 ^ n" v 256] by simp
  finally show ?case .
qed

lemma le_read_bounds: "0 \<le> le_read f a n \<and> le_read f a n < 256 ^ n"
proof (induction n arbitrary: a)
  case 0 show ?case by simp
next
  case (Suc n)
  have "uint (f a) < 256" using uint_lt2p[of "f a"] by simp
  moreover have "0 \<le> uint (f a)" by simp
  ultimately show ?case using Suc[of "a + 1"] by (simp; linarith)
qed

lemma le_read_le_write_other:
  "a + int n \<le> c \<or> c + int m \<le> a \<Longrightarrow> le_read (le_write f c m v) a n = le_read f a n"
  by (rule le_read_cong) (auto simp: le_write_other)

lemma le_read_append: "le_read f a (m + n) = le_read f a m + 256 ^ m * le_read f (a + int m) n"
  by (induction m arbitrary: a) (auto simp: algebra_simps)

lemma le_read_8: "le_read f a 8 = le_read f a 4 + 4294967296 * le_read f (a + 4) 4"
  using le_read_append[of f a 4 4] by simp

lemma read_boxed_low:
  "le_read (le_write (le_write f (a + 4) 4 h) a 4 l) a 4 = l mod 4294967296"
  using le_read_le_write[of "le_write f (a + 4) 4 h" a 4 l] by simp

lemma read_boxed_high:
  "le_read (le_write (le_write f (a + 4) 4 h) a 4 l) (a + 4) 4 = h mod 4294967296"
proof -
  have "le_read (le_write (le_write f (a + 4) 4 h) a 4 l) (a + 4) 4
      = le_read (le_write f (a + 4) 4 h) (a + 4) 4"
    by (rule le_read_le_write_other) simp
  then show ?thesis using le_read_le_write[of f "a + 4" 4 h] by simp
qed

lemma uint_word64: "0 \<le> x \<Longrightarrow> x < 2 ^ 64 \<Longrightarrow> uint (word_of_int x :: 64 word) = x"
  by (simp only: uint_word_of_int_eq) (simp add: take_bit_int_eq_self)

lemma isNaN_boxed:
  assumes "0 \<le> l" "l < 4294967296" "2146959360 \<le> h" "h \<le> 2146959363"
  shows "isNaN (word_of_int (l + 4294967296 * h))"
proof -
  let ?x = "l + 4294967296 * h"
  have r: "0 \<le> ?x" "?x < 2 ^ 64" using assms by auto
  have u: "uint (word_of_int ?x :: 64 word) = ?x"
    using r by (rule uint_word64)
  have d: "?x div 2 ^ 52 = 2047" using assms by simp
  have "?x mod 2 ^ 52 = ?x - 2 ^ 52 * (?x div 2 ^ 52)"
    by (simp only: minus_mult_div_eq_mod)
  then have m: "?x mod 2 ^ 52 \<noteq> 0" using assms unfolding d by simp
  show ?thesis unfolding isNaN_def u using d m by simp
qed

lemma nanHead_typeFlag: "nanHead OR typeFlag v = nanHead + typeFlag v"
  by (cases v) (simp_all add: nanHead_def typeFlag_def)

lemma typeFlag_range: "0 \<le> typeFlag v \<and> typeFlag v \<le> 3"
  by (simp add: typeFlag_def)

section \<open>The Value Table\<close>

lemma storeBoxed_fst:
  "mem_ok s addr 8 \<Longrightarrow> fst (storeBoxed s addr h l) = Inr ()"
  by (auto simp: mem_ok_def storeBoxed_def setUint32_def mem_update_def andThen_def
      dv_setUint32_def dv_ok_def split: option.splits)

lemma storeBoxed_frame:
  "values' (snd (storeBoxed s addr h l)) = values' s"
  "refs (snd (storeBoxed s addr h l)) = refs s"
  "running (snd (storeBoxed s addr h l)) = running s"
  "exited (snd (storeBoxed s addr h l)) = exited s"
  by (auto simp: storeBoxed_def setUint32_def mem_update_def andThen_def
      split: option.splits sum.splits)

lemma storeBoxed_read:
  assumes "mem_ok s addr 8" "0 \<le> l" "l < 4294967296" "0 \<le> h" "h < 4294967296"
  shows "getUint32 (snd (storeBoxed s addr h l)) addr = Inr l"
    and "getFloat64 (snd (storeBoxed s addr h l)) addr = Inr (word_of_int (l + 4294967296 * h))"
  using assms
  by (auto simp: mem_ok_def storeBoxed_def setUint32_def mem_update_def andThen_def
      dv_setUint32_def dv_ok_def getUint32_def getFloat64_def mem_read_def memRaw_def
      dv_getUint32_def dv_getFloat64_def le_read_8 read_boxed_low read_boxed_high
      simp del: le_read.simps le_write.simps
      split: option.splits)

lemma loadValue_storeBoxed:
  assumes "mem_ok s addr 8" "values' s = Some vs" "0 \<le> l" "l < 4294967296"
    "nanHead \<le> h" "h \<le> nanHead + 3"
  shows "loadValue (snd (storeBoxed s addr h l)) addr =
           Inr (if l < int (length vs) then vs ! nat l else JUndefined)"
proof -
  have h: "0 \<le> h" "h < 4294967296" "2146959360 \<le> h" "h \<le> 2146959363"
    using assms by (simp_all add: nanHead_def)
  have "isNaN (word_of_int (l + 4294967296 * h))"
    using assms(3,4) h(3,4) by (rule isNaN_boxed)
  then show ?thesis
    using assms(2) storeBoxed_read[OF assms(1,3,4) h(1,2)]
    by (simp add: loadValue_def storeBoxed_frame)
qed

lemma uint_lt64: "uint (w :: 64 word) < 2 ^ 64"
  using uint_lt2p[of w] by simp

lemma setFloat64_fst: "mem_ok s addr 8 \<Longrightarrow> fst (setFloat64 s addr w) = Inr ()"
  by (auto simp: mem_ok_def setFloat64_def mem_update_def dv_setFloat64_def
      split: option.splits)

lemma setFloat64_frame:
  "values' (snd (setFloat64 s addr w)) = values' s"
  "refs (snd (setFloat64 s addr w)) = refs s"
  by (auto simp: setFloat64_def mem_update_def split: option.splits sum.splits)

lemma getFloat64_setFloat64:
  assumes "mem_ok s addr 8"
  shows "getFloat64 (snd (setFloat64 s addr w)) addr = Inr w"
proof -
  have "le_read (le_write f addr 8 (uint w)) addr 8 = uint w" for f
    using le_read_le_write[of f addr 8 "uint w"] uint_lt64[of w] by simp
  then show ?thesis using assms
    by (auto simp: mem_ok_def setFloat64_def mem_update_def dv_setFloat64_def getFloat64_def
        mem_read_def memRaw_def dv_getFloat64_def dv_ok_def
        simp del: le_read.simps le_write.simps split: option.splits)
qed

lemma loadValue_setFloat64:
  "mem_ok s addr 8 \<Longrightarrow> \<not> isNaN w \<Longrightarrow> loadValue (snd (setFloat64 s addr w)) addr = Inr (JNumber w)"
  by (simp add: loadValue_def getFloat64_setFloat64)

lemma internRef_frame:
  "instance' (snd (internRef s v)) = instance' s"
  by (auto simp: internRef_def split: option.splits)

lemma mem_ok_internRef: "mem_ok (snd (internRef s v)) addr n = mem_ok s addr n"
  by (simp add: mem_ok_def internRef_frame)

lemma internRef_known:
  assumes "refs s = Some rs" "rs v = Some r"
  shows "internRef s v = (Inr r, s)"
  using assms by (simp add: internRef_def)

lemma internRef_new:
  assumes "refs s = Some rs" "rs v = None" "values' s = Some vs" "length vs < 2 ^ 32 - 1"
  shows "internRef s v = (Inr (length vs),
           s\<lparr>values' := Some (vs @ [v]), refs := Some (rs(v \<mapsto> length vs))\<rparr>)"
  using assms by (simp add: internRef_def)

lemma table_ok_internRef:
  assumes "table_ok s"
  shows "table_ok (snd (internRef s v))"
proof -
  from assms obtain vs rs where s: "values' s = Some vs" "refs s = Some rs"
    and len: "length vs \<le> 2 ^ 32 - 1"
    and res: "take 5 vs = [NaN, JUndefined, JNull, JBool True, JBool False]"
    and inj: "\<And>u r. rs u = Some r \<Longrightarrow> r < length vs \<and> vs ! r = u"
    by (auto simp: table_ok_def split: option.splits)
  show ?thesis
  proof (cases "rs v")
    case (Some r)
    then show ?thesis using assms s by (simp add: internRef_def)
  next
    case None
    show ?thesis
    proof (cases "length vs \<ge> 2 ^ 32 - 1")
      case True
      then show ?thesis using assms s None by (simp add: internRef_def)
    next
      case False
      have five: "5 \<le> length vs"
      proof (rule ccontr)
        assume "\<not> 5 \<le> length vs"
        then have "length (take 5 vs) < 5" by simp
        then show False using res by simp
      qed
      have "take 5 (vs @ [v]) = take 5 vs" using five by simp
      moreover have "\<And>u r. (rs(v \<mapsto> length vs)) u = Some r \<Longrightarrow>
          r < length (vs @ [v]) \<and> (vs @ [v]) ! r = u"
        using inj by (auto simp: nth_append split: if_splits)
      ultimately show ?thesis using False s None res
        by (simp add: internRef_def table_ok_def)
    qed
  qed
qed

text \<open>The index that internRef returns designates the value, in the table it leaves.\<close>
lemma internRef_index:
  assumes "table_ok s" "internRef s v = (Inr r, s1)"
  shows "\<exists>vs. values' s1 = Some vs \<and> r < length vs \<and> vs ! r = v \<and> int r < 4294967296"
proof -
  from assms(1) obtain vs rs where s: "values' s = Some vs" "refs s = Some rs"
    and len: "length vs \<le> 2 ^ 32 - 1"
    and inj: "\<And>u r. rs u = Some r \<Longrightarrow> r < length vs \<and> vs ! r = u"
    by (auto simp: table_ok_def split: option.splits)
  show ?thesis
  proof (cases "rs v")
    case (Some r')
    then have "r = r'" "s1 = s" using assms(2) s by (simp_all add: internRef_def)
    then show ?thesis using inj[OF Some] s len by auto
  next
    case None
    then have "length vs < 2 ^ 32 - 1 \<and> r = length vs \<and> values' s1 = Some (vs @ [v])"
      using assms(2) s by (auto simp: internRef_def split: if_splits)
    then show ?thesis by auto
  qed
qed

lemma storeValue_nonprim:
  "\<not> primitive v \<Longrightarrow> storeValue s addr v =
     andThen (internRef s v) (\<lambda>r s1. storeBoxed s1 addr (nanHead OR typeFlag v) (int r))"
  by (cases v) simp_all

lemma head_range: "nanHead \<le> nanHead OR typeFlag v \<and> nanHead OR typeFlag v \<le> nanHead + 3"
  using typeFlag_range[of v] by (simp add: nanHead_typeFlag)

lemma table_reserved:
  assumes "table_ok s" "values' s = Some vs"
  shows "5 \<le> length vs" "vs ! 0 = NaN" "vs ! 1 = JUndefined" "vs ! 2 = JNull"
    "vs ! 3 = JBool True" "vs ! 4 = JBool False"
proof -
  have t: "take 5 vs = [NaN, JUndefined, JNull, JBool True, JBool False]"
    using assms by (simp add: table_ok_def split: option.splits)
  show "5 \<le> length vs"
  proof (rule ccontr)
    assume "\<not> 5 \<le> length vs"
    then have "length (take 5 vs) < 5" by simp
    then show False using t by simp
  qed
  have n: "vs ! k = take 5 vs ! k" if "k < 5" for k using that by simp
  show "vs ! 0 = NaN" "vs ! 1 = JUndefined" "vs ! 2 = JNull"
    "vs ! 3 = JBool True" "vs ! 4 = JBool False"
    by (simp_all only: n t) simp_all
qed

lemma table_ok_cong:
  "values' s' = values' s \<Longrightarrow> refs s' = refs s \<Longrightarrow> table_ok s' = table_ok s"
  by (auto simp: table_ok_def split: option.splits)

lemma table_ok_storeBoxed: "table_ok (snd (storeBoxed s addr h l)) = table_ok s"
  by (rule table_ok_cong) (simp_all add: storeBoxed_frame)

lemma table_ok_setFloat64: "table_ok (snd (setFloat64 s addr w)) = table_ok s"
  by (rule table_ok_cong) (simp_all add: setFloat64_frame)

lemma loadValue_reserved:
  assumes "table_ok s" "mem_ok s addr 8" "k \<in> {0, 1, 2, 3, 4}"
  shows "loadValue (snd (storeBoxed s addr nanHead k)) addr =
           Inr ([NaN, JUndefined, JNull, JBool True, JBool False] ! nat k)"
proof -
  from assms(1) obtain vs where vs: "values' s = Some vs"
    by (auto simp: table_ok_def split: option.splits)
  note r = table_reserved[OF assms(1) vs]
  have "loadValue (snd (storeBoxed s addr nanHead k)) addr =
          Inr (if k < int (length vs) then vs ! nat k else JUndefined)"
    using assms(3) by (intro loadValue_storeBoxed[OF assms(2) vs]) auto
  then show ?thesis using r assms(3) by auto
qed

lemma internRef_succeeds:
  assumes "table_ok s" "ref_of s v \<noteq> None \<or> has_room s"
  shows "\<exists>r s1. internRef s v = (Inr r, s1)"
  using assms
  by (auto simp: table_ok_def ref_of_def has_room_def internRef_def split: option.splits)

lemma internRef_ref_of:
  assumes "internRef s v = (Inr r, s1)"
  shows "ref_of s1 v = Some r"
  using assms by (auto simp: internRef_def ref_of_def split: option.splits if_splits)


lemma ref_of_storeBoxed: "ref_of (snd (storeBoxed s addr h l)) u = ref_of s u"
  by (simp add: ref_of_def storeBoxed_frame)


text \<open>Storing a value that is not a primitive: the index written, and what is read back.\<close>
lemma storeValue_ref:
  assumes "table_ok s" "mem_ok s addr 8" "\<not> primitive v" "internRef s v = (Inr r, s1)"
  shows "fst (storeValue s addr v) = Inr ()"
    and "getUint32 (snd (storeValue s addr v)) addr = Inr (int r)"
    and "loadValue (snd (storeValue s addr v)) addr = Inr v"
    and "ref_of (snd (storeValue s addr v)) v = Some r"
    and "snd (storeValue s addr v) = snd (storeBoxed s1 addr (nanHead OR typeFlag v) (int r))"
proof -
  have sv: "storeValue s addr v = storeBoxed s1 addr (nanHead OR typeFlag v) (int r)"
    using assms(3,4) by (simp add: storeValue_nonprim andThen_def)
  have m1: "mem_ok s1 addr 8"
    using mem_ok_internRef[of s v addr 8] assms(2,4) by simp
  have t1: "table_ok s1" using table_ok_internRef[OF assms(1), of v] assms(4) by simp
  from internRef_index[OF assms(1,4)] obtain vs where
    vs: "values' s1 = Some vs" "r < length vs" "vs ! r = v" "int r < 4294967296" by blast
  note hr = head_range[of v]
  have h: "0 \<le> nanHead OR typeFlag v" "nanHead OR typeFlag v < 4294967296"
    using typeFlag_range[of v] unfolding nanHead_typeFlag by (simp_all add: nanHead_def)
  show "fst (storeValue s addr v) = Inr ()" unfolding sv by (rule storeBoxed_fst[OF m1])
  show "getUint32 (snd (storeValue s addr v)) addr = Inr (int r)"
    unfolding sv using vs(4) by (intro storeBoxed_read(1)[OF m1 _ _ h]) simp_all
  have "loadValue (snd (storeBoxed s1 addr (nanHead OR typeFlag v) (int r))) addr =
        Inr (if int r < int (length vs) then vs ! nat (int r) else JUndefined)"
    using vs(4) hr by (intro loadValue_storeBoxed[OF m1 vs(1)]) simp_all
  then show "loadValue (snd (storeValue s addr v)) addr = Inr v"
    unfolding sv using vs by simp
  show "ref_of (snd (storeValue s addr v)) v = Some r"
    unfolding sv using internRef_ref_of[OF assms(4)] by (simp add: ref_of_storeBoxed)
  show "snd (storeValue s addr v) = snd (storeBoxed s1 addr (nanHead OR typeFlag v) (int r))"
    unfolding sv ..
qed

lemma storeValue_bool:
  "storeValue s addr (JBool b) = storeBoxed s addr nanHead (if b then 3 else 4)"
  by (cases b) simp_all

lemma table_ok_storeValue:
  assumes "table_ok s"
  shows "table_ok (snd (storeValue s addr v))"
proof (cases "primitive v")
  case True
  then show ?thesis using assms
    by (cases v)
       (simp_all add: storeValue_bool table_ok_storeBoxed table_ok_setFloat64
         del: storeValue.simps(4,5))
next
  case False
  obtain x s1 where i: "internRef s v = (x, s1)" by (cases "internRef s v")
  have t1: "table_ok s1" using table_ok_internRef[OF assms, of v] i by simp
  show ?thesis
    using False i t1
    by (cases x) (simp_all add: storeValue_nonprim andThen_def table_ok_storeBoxed)
qed

lemma values_load:
  "values' (load s0 inst) = Some [NaN, JUndefined, JNull, JBool True, JBool False,
     internalGlobal, exports_mem inst, self s0]"
  by (simp add: load_def load_begin_def load_finish_def)

lemma mem_ok_mem_update:
  assumes "\<And>b b'. f b = Inr b' \<Longrightarrow> byteLength b' = byteLength b"
  shows "mem_ok (snd (mem_update s f)) a n = mem_ok s a n"
  using assms
  by (auto simp: mem_ok_def mem_update_def dv_ok_def split: option.splits sum.splits)

lemma mem_ok_setUint32: "mem_ok (snd (setUint32 s addr v)) a n = mem_ok s a n"
  unfolding setUint32_def
  by (rule mem_ok_mem_update) (auto simp: dv_setUint32_def split: if_splits)

lemma mem_ok_setUint8: "mem_ok (snd (setUint8 s addr v)) a n = mem_ok s a n"
  unfolding setUint8_def
  by (rule mem_ok_mem_update) (auto simp: dv_setUint8_def split: if_splits)

lemma mem_ok_setInt32: "mem_ok (snd (setInt32 s addr v)) a n = mem_ok s a n"
  unfolding setInt32_def
  by (rule mem_ok_mem_update) (auto simp: dv_setInt32_def split: if_splits)

lemma mem_ok_setFloat64: "mem_ok (snd (setFloat64 s addr v)) a n = mem_ok s a n"
  unfolding setFloat64_def
  by (rule mem_ok_mem_update) (auto simp: dv_setFloat64_def split: if_splits)

lemma snd_andThen:
  "snd (andThen m f) = (case fst m of Inl e \<Rightarrow> snd m | Inr x \<Rightarrow> snd (f x (snd m)))"
  by (cases m) (auto simp: andThen_def split: sum.splits)

lemma mem_ok_storeBoxed: "mem_ok (snd (storeBoxed s addr h l)) a n = mem_ok s a n"
  by (simp add: storeBoxed_def snd_andThen mem_ok_setUint32 split: sum.splits)

lemma mem_ok_storeValue: "mem_ok (snd (storeValue s addr v)) a n = mem_ok s a n"
  by (cases v)
     (simp_all add: storeValue_bool mem_ok_storeBoxed mem_ok_setFloat64 snd_andThen
        mem_ok_internRef del: storeValue.simps(4,5) split: sum.splits)

lemma storeValue_known:
  assumes "table_ok s" "mem_ok s addr 8" "\<not> primitive v" "ref_of s v = Some r"
  shows "fst (storeValue s addr v) = Inr ()"
    and "getUint32 (snd (storeValue s addr v)) addr = Inr (int r)"
    and "ref_of (snd (storeValue s addr v)) u = ref_of s u"
proof -
  have i: "internRef s v = (Inr r, s)"
    using assms(4) by (auto simp: ref_of_def internRef_def split: option.splits)
  note sr = storeValue_ref[OF assms(1,2,3) i]
  show "fst (storeValue s addr v) = Inr ()" by (rule sr(1))
  show "getUint32 (snd (storeValue s addr v)) addr = Inr (int r)" by (rule sr(2))
  show "ref_of (snd (storeValue s addr v)) u = ref_of s u"
    unfolding sr(5) by (rule ref_of_storeBoxed)
qed



lemmas go_eval = fresh_def load_def load_begin_def load_finish_def constructor_def
  idle_instance_def zero_buffer_def internRef_def storeBoxed_def setUint32_def mem_update_def
  andThen_def dv_setUint32_def dv_ok_def nanHead_def typeFlag_def NaN_def internalGlobal_def
  getUint32_def mem_read_def memRaw_def dv_getUint32_def mem_ok_def



lemma table_ok_load: "table_ok (load s inst)"
  by (simp add: table_ok_def load_def load_begin_def load_finish_def)

lemma mem_ok_load: "mem_ok (load s inst) addr n = dv_ok (buffer inst) addr n"
  by (simp add: mem_ok_def load_def load_begin_def load_finish_def)

lemma mem_ok_fresh: "mem_ok (fresh n) addr k \<longleftrightarrow> 0 \<le> addr \<and> addr + k \<le> n"
  by (simp add: fresh_def mem_ok_load idle_instance_def zero_buffer_def dv_ok_def)

lemma isNaN_NaN: "isNaN 0x7FF8000000000000"
  by (simp add: isNaN_def)

lemma obs_eq_refl: "obs_eq v v"
  by (cases v) simp_all

lemma storeValue_loadValue:
  assumes "table_ok s" "mem_ok s addr 8" "primitive v \<or> ref_of s v \<noteq> None \<or> has_room s"
  shows "fst (storeValue s addr v) = Inr ()"
    and "\<exists>w. loadValue (snd (storeValue s addr v)) addr = Inr w \<and> obs_eq w v"
    and "\<forall>n. v = JNumber n \<longrightarrow> isNaN n \<longrightarrow> loadValue (snd (storeValue s addr v)) addr = Inr NaN"
proof -
  note res = loadValue_reserved[OF assms(1,2)]
  have "fst (storeValue s addr v) = Inr ()
      \<and> (\<exists>w. loadValue (snd (storeValue s addr v)) addr = Inr w \<and> obs_eq w v)
      \<and> (\<forall>n. v = JNumber n \<longrightarrow> isNaN n \<longrightarrow> loadValue (snd (storeValue s addr v)) addr = Inr NaN)"
  proof (cases "primitive v")
    case True
    then show ?thesis
    proof (cases v)
      case (JNumber n)
      show ?thesis
      proof (cases "isNaN n")
        case True
        then show ?thesis using JNumber res[of 0] storeBoxed_fst[OF assms(2)] isNaN_NaN
          by (simp add: NaN_def)
      next
        case False
        then show ?thesis
          using JNumber setFloat64_fst[OF assms(2)] loadValue_setFloat64[OF assms(2) False]
          by simp
      qed
    next
      case JUndefined
      then show ?thesis using res[of 1] storeBoxed_fst[OF assms(2)] by simp
    next
      case JNull
      then show ?thesis using res[of 2] storeBoxed_fst[OF assms(2)] by simp
    next
      case (JBool b)
      then show ?thesis using res[of 3] res[of 4] storeBoxed_fst[OF assms(2)]
        by (cases b) simp_all
    qed simp_all
  next
    case False
    with assms(3) have "ref_of s v \<noteq> None \<or> has_room s" by simp
    from internRef_succeeds[OF assms(1) this] obtain r s1 where
      i: "internRef s v = (Inr r, s1)" by blast
    note sr = storeValue_ref[OF assms(1,2) False i]
    show ?thesis using sr(1,3) False by (auto simp: obs_eq_refl)
  qed
  then show "fst (storeValue s addr v) = Inr ()"
    and "\<exists>w. loadValue (snd (storeValue s addr v)) addr = Inr w \<and> obs_eq w v"
    and "\<forall>n. v = JNumber n \<longrightarrow> isNaN n \<longrightarrow> loadValue (snd (storeValue s addr v)) addr = Inr NaN"
    by blast+
qed


lemma getFloat64_halves:
  assumes "getUint32 s addr = Inr l" "getUint32 s (addr + 4) = Inr h"
  shows "getFloat64 s addr = Inr (word_of_int (l + 4294967296 * h))"
    and "0 \<le> l" and "l < 4294967296"
proof -
  obtain b where b: "memRaw s = Inr b"
    using assms(1) by (cases "memRaw s") (simp_all add: getUint32_def mem_read_def)
  have l: "dv_ok b addr 4" "l = le_read (bytes b) addr 4"
    using assms(1) b by (auto simp: getUint32_def mem_read_def dv_getUint32_def split: if_splits)
  have h: "dv_ok b (addr + 4) 4" "h = le_read (bytes b) (addr + 4) 4"
    using assms(2) b by (auto simp: getUint32_def mem_read_def dv_getUint32_def split: if_splits)
  have ok: "dv_ok b addr 8" using l(1) h(1) by (simp add: dv_ok_def)
  show "getFloat64 s addr = Inr (word_of_int (l + 4294967296 * h))"
    using b ok by (simp add: getFloat64_def mem_read_def dv_getFloat64_def le_read_8 l(2) h(2)
        del: le_read.simps)
  show "0 \<le> l" "l < 4294967296"
    using le_read_bounds[of "bytes b" addr 4] by (simp_all add: l(2) del: le_read.simps)
qed

lemma storeBoxed_read_high:
  assumes "mem_ok s addr 8" "0 \<le> h" "h < 4294967296"
  shows "getUint32 (snd (storeBoxed s addr h l)) (addr + 4) = Inr h"
  using assms
  by (auto simp: mem_ok_def storeBoxed_def setUint32_def mem_update_def andThen_def
      dv_setUint32_def dv_ok_def getUint32_def mem_read_def memRaw_def
      dv_getUint32_def read_boxed_high
      simp del: le_read.simps le_write.simps
      split: option.splits)

lemma values_fresh:
  "values' (fresh n) = Some [NaN, JUndefined, JNull, JBool True, JBool False, internalGlobal,
     JObject 1, JObject 2]"
  by (simp add: go_eval)

lemma read_split_low:
  "le_read (le_write (le_write f a 4 l) (a + 4) 4 h) a 4 = l mod 4294967296"
proof -
  have "le_read (le_write (le_write f a 4 l) (a + 4) 4 h) a 4 = le_read (le_write f a 4 l) a 4"
    by (rule le_read_le_write_other) simp
  then show ?thesis using le_read_le_write[of f a 4 l] by simp
qed

lemma read_split_high:
  "le_read (le_write g (a + 4) 4 h) (a + 4) 4 = h mod 4294967296"
  using le_read_le_write[of g "a + 4" 4 h] by simp

text \<open>What getInt64 reads after setInt64: each half comes back as a signed word.\<close>
lemma getInt64_setInt64:
  assumes "mem_ok s addr 8"
  shows "fst (setInt64 s addr v) = Inr ()"
    and "getInt64 (snd (setInt64 s addr v)) addr =
      Inr (int32_of (v mod 4294967296) + int32_of ((v div 4294967296) mod 4294967296) * 4294967296)"
  using assms
  by (auto simp: mem_ok_def setInt64_def getInt64_def getInt32_def setUint32_def mem_update_def
      andThen_def dv_setUint32_def dv_getInt32_def dv_ok_def mem_read_def memRaw_def
      read_split_low read_split_high
      simp del: le_read.simps le_write.simps split: option.splits)

lemma getInt64_setInt64_low_clear:
  assumes "mem_ok s addr 8" "0 \<le> v" "v < 2 ^ 63" "v mod 4294967296 < 2 ^ 31"
  shows "getInt64 (snd (setInt64 s addr v)) addr = Inr v"
proof -
  have d: "v div 4294967296 < 2 ^ 31" "0 \<le> v div 4294967296" using assms(2,3) by simp_all
  then have "(v div 4294967296) mod 4294967296 = v div 4294967296" by simp
  moreover have "v mod 4294967296 + (v div 4294967296) * 4294967296 = v" by simp
  ultimately show ?thesis
    using getInt64_setInt64(2)[OF assms(1), of v] assms(4) d by (simp add: int32_of_def)
qed


section \<open>Flags along the events\<close>

lemma persists_refl: "persists s s"
  by (simp add: persists_def)

lemma persists_trans: "persists s s1 \<Longrightarrow> persists s1 s2 \<Longrightarrow> persists s s2"
  by (simp add: persists_def)

lemma persists_andThen:
  assumes "persists s (snd m)" "\<And>x s1. persists s1 (snd (f x s1))"
  shows "persists s (snd (andThen m f))"
proof (cases m)
  case (Pair r s1)
  show ?thesis
  proof (cases r)
    case (Inl e)
    then show ?thesis using assms(1) Pair by (simp add: andThen_def)
  next
    case (Inr x)
    then show ?thesis
      using persists_trans[OF _ assms(2)[of s1 x]] assms(1) Pair by (simp add: andThen_def)
  qed
qed

lemma persists_mem_update: "persists s (snd (mem_update s f))"
  by (auto simp: persists_def mem_update_def loaded_def split: option.splits sum.splits)

lemma persists_setUint32: "persists s (snd (setUint32 s a v))"
  unfolding setUint32_def by (rule persists_mem_update)

lemma persists_setInt32: "persists s (snd (setInt32 s a v))"
  unfolding setInt32_def by (rule persists_mem_update)

lemma persists_setUint8: "persists s (snd (setUint8 s a v))"
  unfolding setUint8_def by (rule persists_mem_update)

lemma persists_setFloat64: "persists s (snd (setFloat64 s a v))"
  unfolding setFloat64_def by (rule persists_mem_update)

lemma persists_storeBoxed: "persists s (snd (storeBoxed s a h l))"
  unfolding storeBoxed_def by (intro persists_andThen persists_setUint32)

lemma persists_internRef: "persists s (snd (internRef s v))"
  by (auto simp: persists_def internRef_def loaded_def split: option.splits)

lemma persists_storeValue: "persists s (snd (storeValue s a v))"
  by (cases v)
     (simp_all add: storeValue_bool persists_storeBoxed persists_setFloat64 persists_andThen
        persists_internRef del: storeValue.simps(4,5))

lemma persists_storeResult: "persists s (snd (storeResult s a v k))"
  unfolding storeResult_def by (intro persists_andThen persists_storeValue persists_setUint8)

lemma persists_valueCall_try: "persists s (snd (valueCall_try h s a))"
  by (auto simp: valueCall_try_def persists_refl persists_storeResult split: sum.splits)

lemma persists_valueInvoke_try: "persists s (snd (valueInvoke_try h s a))"
  by (auto simp: valueInvoke_try_def persists_refl persists_storeResult split: sum.splits)

lemma persists_valueNew_try: "persists s (snd (valueNew_try h s a))"
  by (auto simp: valueNew_try_def persists_refl persists_storeResult split: sum.splits)

lemma persists_catch:
  assumes "persists s (snd m)"
  shows "persists s (snd (case m of (Inl e, s1) \<Rightarrow> storeResult s1 a (caught h e) 0
                          | (Inr u, s1) \<Rightarrow> (Inr u, s1)))"
  using assms persists_trans[OF _ persists_storeResult]
  by (cases m) (auto split: sum.splits)

lemma persists_valueCall: "persists s (snd (valueCall h s a))"
  unfolding valueCall_def by (rule persists_catch[OF persists_valueCall_try])

lemma persists_valueInvoke: "persists s (snd (valueInvoke h s a))"
  unfolding valueInvoke_def by (rule persists_catch[OF persists_valueInvoke_try])

lemma persists_valueNew: "persists s (snd (valueNew h s a))"
  unfolding valueNew_def by (rule persists_catch[OF persists_valueNew_try])

lemma persists_wasmExit: "persists s (snd (wasmExit s a))"
  by (auto simp: persists_def wasmExit_def loaded_def Let_def split: sum.splits option.splits)

lemma persists_scheduleCallback: "persists s (snd (scheduleCallback s a))"
proof -
  have "persists s (s\<lparr>nextCallbackTimeoutID := n\<rparr>)" for n
    by (simp add: persists_def loaded_def)
  moreover have "persists s (snd (setInt32 (s\<lparr>nextCallbackTimeoutID := n,
        timers := t, next_handle := k, callbackTimeouts := Some m\<rparr>) b v))"
    if "callbackTimeouts s \<noteq> None" for n t k m b v
    by (rule persists_trans[OF _ persists_setInt32]) (use that in \<open>simp add: persists_def loaded_def\<close>)
  ultimately show ?thesis
    by (auto simp: scheduleCallback_def Let_def split: option.splits sum.splits)
qed

lemma persists_clearScheduledCallback: "persists s (snd (clearScheduledCallback s a))"
  by (auto simp: persists_def clearScheduledCallback_def loaded_def Let_def
      split: sum.splits option.splits)

lemma persists_setInt64: "persists s (snd (setInt64 s a v))"
  unfolding setInt64_def by (intro persists_andThen persists_setUint32)

lemma persists_exec_effect: "persists s (snd (exec_effect s e))"
  by (cases e)
     (simp_all add: persists_storeValue persists_setInt64 persists_setInt32 persists_setUint8
        persists_mem_update)

lemma persists_exec_effects: "persists s (snd (exec_effects s es))"
  by (induction es arbitrary: s)
     (simp_all add: persists_refl persists_andThen persists_exec_effect)

lemma persists_exec_call: "persists s (snd (exec_call s c))"
  by (cases c)
     (simp_all add: persists_wasmExit persists_scheduleCallback persists_clearScheduledCallback
        persists_valueCall persists_valueInvoke persists_valueNew persists_exec_effects)

lemma persists_exec_calls: "persists s (snd (exec_calls s cs))"
  by (induction cs arbitrary: s) (simp_all add: persists_refl persists_andThen persists_exec_call)

lemma persists_invokeEntry: "persists s (snd (invokeEntry s argc argv))"
proof (cases "instance' s")
  case None
  then show ?thesis by (simp add: invokeEntry_def persists_refl)
next
  case (Some i)
  have "persists s (s\<lparr>instance' := Some j, entry_calls := l\<rparr>)" for j l
    by (simp add: persists_def loaded_def)
  then show ?thesis using Some
    by (simp add: invokeEntry_def persists_trans[OF _ persists_exec_calls])
qed

lemma persists_run_iteration: "persists s (snd (run_iteration s argc argv))"
proof -
  have a: "persists s (s\<lparr>next_promise := n, resolveCallbackPromise := Some r\<rparr>)" for n r
    by (simp add: persists_def loaded_def)
  have b: "persists s1 (s1\<lparr>suspended := l\<rparr>)" for s1 l
    by (simp add: persists_def loaded_def)
  show ?thesis
    unfolding run_iteration_def Let_def
    by (rule persists_andThen[OF persists_trans[OF a persists_invokeEntry]])
       (simp add: persists_refl b)
qed

lemma persists_strPtr: "persists s (snd (strPtr s off x))"
  by (auto simp: persists_def strPtr_def loaded_def Let_def split: option.splits)

lemma persists_strPtrs: "persists s (snd (strPtrs s off xs))"
proof (induction xs arbitrary: s off)
  case Nil
  show ?case by (simp add: persists_refl)
next
  case (Cons x xs)
  show ?case
    by (simp, intro persists_andThen persists_strPtr)
       (auto intro!: persists_andThen Cons simp: persists_refl)
qed

lemma persists_writePtrs: "persists s (snd (writePtrs s off ps))"
proof (induction ps arbitrary: s off)
  case Nil
  show ?case by (simp add: persists_refl)
next
  case (Cons p ps)
  show ?case by (simp, intro persists_andThen persists_setUint32 Cons)
qed

lemma persists_marshal: "persists s (snd (marshal s ps))"
  unfolding marshal_def Let_def
  by (intro persists_andThen persists_strPtrs)
     (auto intro!: persists_andThen persists_strPtrs persists_writePtrs simp: persists_refl)

lemma persists_run: "persists s (snd (run s ps))"
proof (cases "running s")
  case True
  then show ?thesis by (simp add: run_def persists_refl)
next
  case False
  have a: "persists s (s\<lparr>running := True\<rparr>)" by (simp add: persists_def loaded_def)
  show ?thesis using False
    by (simp add: run_def)
       (intro persists_andThen persists_trans[OF a persists_marshal],
        auto simp: persists_run_iteration)
qed

lemma running_run: "running (snd (run s ps))"
proof (cases "running s")
  case True
  then show ?thesis by (simp add: run_def)
next
  case False
  have "persists (s\<lparr>running := True\<rparr>) (snd (run s ps))" using False
    by (simp add: run_def)
       (intro persists_andThen persists_marshal, auto simp: persists_run_iteration)
  then show ?thesis by (simp add: persists_def)
qed

lemma persists_call_resolve: "persists s (snd (call_resolveCallbackPromise s))"
  by (auto simp: persists_def call_resolveCallbackPromise_def loaded_def split: option.splits)

lemma persists_resume: "persists s (snd (resume s p))"
proof -
  have a: "persists s (s\<lparr>suspended := l\<rparr>)" for l by (simp add: persists_def loaded_def)
  show ?thesis
    by (auto simp: resume_def persists_refl split: option.splits
        intro!: persists_andThen persists_trans[OF a persists_run_iteration])
qed

lemma persists_fire_timer: "persists s (snd (fire_timer s h))"
proof -
  have a: "persists s (s\<lparr>timers := l\<rparr>)" for l by (simp add: persists_def loaded_def)
  show ?thesis
    by (auto simp: fire_timer_def persists_refl Let_def split: option.splits timer_fn.splits
        intro: persists_trans[OF a persists_call_resolve] persists_trans[OF a persists_resume])
qed

lemma persists_load_finish: "persists s (load_finish s inst)"
  by (simp add: persists_def load_finish_def loaded_def)

lemma persists_step: "\<not> is_reset e \<Longrightarrow> persists s (step s e)"
  by (cases e)
     (simp_all add: persists_run persists_fire_timer persists_call_resolve persists_exec_call
        persists_load_finish)

lemma persists_steps: "\<forall>e\<in>set es. \<not> is_reset e \<Longrightarrow> persists s (foldl step s es)"
proof (induction es arbitrary: s)
  case Nil
  show ?case by (simp add: persists_refl)
next
  case (Cons e es)
  then show ?case using persists_trans[OF persists_step[of e s] Cons.IH[of "step s e"]] by simp
qed

lemma callbackTimeouts_step:
  "callbackTimeouts s = None \<Longrightarrow> callbackTimeouts (step s e) = None"
proof (cases "is_reset e")
  case True
  assume "callbackTimeouts s = None"
  then show ?thesis using True
    by (cases e) (simp_all add: reset_def load_begin_def)
next
  case False
  assume "callbackTimeouts s = None"
  then show ?thesis using persists_step[OF False, of s] by (simp add: persists_def)
qed

lemma callbackTimeouts_steps:
  "callbackTimeouts s = None \<Longrightarrow> callbackTimeouts (foldl step s es) = None"
  by (induction es arbitrary: s) (simp_all add: callbackTimeouts_step)

lemma callbackTimeouts_constructor: "callbackTimeouts (load (constructor me) inst) = None"
  by (simp add: load_def load_begin_def load_finish_def constructor_def)

lemma scheduleCallback_undefined_map:
  assumes "callbackTimeouts s = None"
  shows "scheduleCallback s addr =
    (Inl TypeError, s\<lparr>nextCallbackTimeoutID := incr (nextCallbackTimeoutID s)\<rparr>)"
  using assms by (simp add: scheduleCallback_def Let_def)


lemma scheduleCallback_first_call:
  "scheduleCallback (load (constructor me) inst) addr =
     (Inl TypeError, (load (constructor me) inst)\<lparr>nextCallbackTimeoutID := NumNaN\<rparr>)"
  using scheduleCallback_undefined_map[OF callbackTimeouts_constructor, of me inst addr]
  by (simp add: load_def load_begin_def load_finish_def constructor_def)


lemma run_iteration_Finished:
  assumes "run_iteration s argc argv = (Inr Finished, s1)"
  shows "exited s1" and "loaded s1"
proof -
  let ?s0 = "s\<lparr>next_promise := next_promise s + 1, resolveCallbackPromise := Some (next_promise s)\<rparr>"
  obtain r s2 where i: "invokeEntry ?s0 argc argv = (r, s2)"
    by (cases "invokeEntry ?s0 argc argv")
  from assms i have r: "r = Inr ()" and e: "exited s2" and s1: "s1 = s2"
    by (auto simp: run_iteration_def Let_def andThen_def split: sum.splits if_splits)
  show "exited s1" using e s1 by simp
  have "loaded ?s0" using i r by (auto simp: invokeEntry_def loaded_def split: option.splits)
  then show "loaded s1"
    using persists_invokeEntry[of ?s0 argc argv] i s1 by (simp add: persists_def)
qed


lemmas run_eval = run_def marshal_def strPtr_def utf8_encode_def utf8_char_def json_escape_def
  Let_def run_iteration_def invokeEntry_def env_entry_def hex_digit_def show_int_def


section \<open>Reflective calls\<close>

lemma setUint8_fst: "mem_ok s a 1 \<Longrightarrow> fst (setUint8 s a v) = Inr ()"
  by (auto simp: mem_ok_def setUint8_def mem_update_def dv_setUint8_def split: option.splits)

lemma setUint8_frame:
  "values' (snd (setUint8 s a v)) = values' s"
  "refs (snd (setUint8 s a v)) = refs s"
  by (auto simp: setUint8_def mem_update_def split: option.splits sum.splits)

lemma getUint8_setUint8:
  assumes "mem_ok s a 1" "0 \<le> v" "v < 256"
  shows "getUint8 (snd (setUint8 s a v)) a = Inr v"
proof -
  have "le_read (le_write f a 1 v) a 1 = v" for f
    using le_read_le_write[of f a 1 v] assms(2,3) by simp
  then show ?thesis using assms(1)
    by (auto simp: mem_ok_def setUint8_def mem_update_def dv_setUint8_def getUint8_def
        mem_read_def memRaw_def dv_getUint8_def dv_ok_def
        simp del: le_read.simps le_write.simps split: option.splits)
qed

lemma loadValue_cong:
  assumes "values' s' = values' s" "getFloat64 s' a = getFloat64 s a" "getUint32 s' a = getUint32 s a"
  shows "loadValue s' a = loadValue s a"
  using assms by (auto simp: loadValue_def split: sum.splits option.splits)

lemma reads_setUint8_other:
  assumes "slot + 8 \<le> a"
  shows "getFloat64 (snd (setUint8 s a v)) slot = getFloat64 s slot"
    and "getUint32 (snd (setUint8 s a v)) slot = getUint32 s slot"
proof -
  have r8: "le_read (le_write f a (Suc 0) v) slot 8 = le_read f slot 8" for f
    by (rule le_read_le_write_other) (use assms in simp)
  have r4: "le_read (le_write f a (Suc 0) v) slot 4 = le_read f slot 4" for f
    by (rule le_read_le_write_other) (use assms in simp)
  show "getFloat64 (snd (setUint8 s a v)) slot = getFloat64 s slot"
    by (auto simp: setUint8_def mem_update_def dv_setUint8_def getFloat64_def mem_read_def
        memRaw_def dv_getFloat64_def dv_ok_def r8
        simp del: le_read.simps le_write.simps split: option.splits)
  show "getUint32 (snd (setUint8 s a v)) slot = getUint32 s slot"
    by (auto simp: setUint8_def mem_update_def dv_setUint8_def getUint32_def mem_read_def
        memRaw_def dv_getUint32_def dv_ok_def r4
        simp del: le_read.simps le_write.simps split: option.splits)
qed

lemma loadValue_setUint8_other:
  "slot + 8 \<le> a \<Longrightarrow> loadValue (snd (setUint8 s a v)) slot = loadValue s slot"
  by (rule loadValue_cong) (simp_all add: setUint8_frame reads_setUint8_other)

lemma mem_ok_mono: "mem_ok s a n \<Longrightarrow> a \<le> b \<Longrightarrow> b + m \<le> a + n \<Longrightarrow> mem_ok s b m"
  by (auto simp: mem_ok_def dv_ok_def split: option.splits)

lemma storeResult_ok:
  assumes "table_ok s" "mem_ok s slot 9" "primitive v \<or> ref_of s v \<noteq> None \<or> has_room s"
    "k = 0 \<or> k = 1"
  shows "fst (storeResult s slot v k) = Inr ()"
    and "\<exists>w. loadValue (snd (storeResult s slot v k)) slot = Inr w \<and> obs_eq w v"
    and "getUint8 (snd (storeResult s slot v k)) (slot + 8) = Inr k"
proof -
  have m8: "mem_ok s slot 8" by (rule mem_ok_mono[OF assms(2)]) simp_all
  have m1: "mem_ok s (slot + 8) 1" by (rule mem_ok_mono[OF assms(2)]) simp_all
  let ?s1 = "snd (storeValue s slot v)"
  note sv = storeValue_loadValue[OF assms(1) m8 assms(3)]
  have e: "storeResult s slot v k = setUint8 ?s1 (slot + 8) k"
    using sv(1) by (cases "storeValue s slot v") (simp add: storeResult_def andThen_def)
  have m1': "mem_ok ?s1 (slot + 8) 1" using m1 by (simp add: mem_ok_storeValue)
  show "fst (storeResult s slot v k) = Inr ()" unfolding e by (rule setUint8_fst[OF m1'])
  show "\<exists>w. loadValue (snd (storeResult s slot v k)) slot = Inr w \<and> obs_eq w v"
    unfolding e using sv(2) by (simp add: loadValue_setUint8_other)
  show "getUint8 (snd (storeResult s slot v k)) (slot + 8) = Inr k"
    unfolding e using assms(4) by (intro getUint8_setUint8[OF m1']) auto
qed

lemma dispatched_catch:
  assumes "table_ok s" "has_room s" "mem_ok s slot 9"
  shows "dispatched
           (case (case host_result res of Inl e \<Rightarrow> (Inl e, s)
                  | Inr r \<Rightarrow> storeResult s slot r 1) of
              (Inl e, s1) \<Rightarrow> storeResult s1 slot (caught h e) 0
            | (Inr u, s1) \<Rightarrow> (Inr u, s1))
           slot res"
proof (cases res)
  case (Inl e)
  have c: "primitive e \<or> ref_of s e \<noteq> None \<or> has_room s" using assms(2) by simp
  show ?thesis using Inl storeResult_ok[OF assms(1,3) c, of 0]
    by (simp add: host_result_def caught_def dispatched_def)
next
  case (Inr r)
  have c: "primitive r \<or> ref_of s r \<noteq> None \<or> has_room s" using assms(2) by simp
  note ok = storeResult_ok[OF assms(1,3) c, of 1]
  obtain u s1 where p: "storeResult s slot r 1 = (Inr u, s1)"
    using ok(1) by (cases "storeResult s slot r 1") auto
  show ?thesis using Inr ok p
    by (simp add: host_result_def dispatched_def)
qed


lemma le_read_zero: "le_read (\<lambda>a. 0) a n = 0"
  by (induction n arbitrary: a) simp_all

lemma has_room_fresh: "has_room (fresh n)"
  by (simp add: has_room_def values_fresh)

lemma fresh_operands:
  "valueCall_operands raising_host (fresh 128) 0 = Inr (JFunction 1, JNumber 0, [])"
  "valueInvoke_operands (fresh 128) 0 = Inr (JNumber 0, [])"
  by (simp_all add: valueCall_operands_def valueInvoke_operands_def loadValue_def loadString_def
      loadSliceOfValues_def getInt64_def getInt32_def getFloat64_def mem_read_def memRaw_def
      dv_getInt32_def dv_getFloat64_def dv_ok_def view_bytes_def property_def raising_host_def
      int32_of_def isNaN_def le_read_zero fresh_def load_def load_begin_def load_finish_def
      idle_instance_def zero_buffer_def constructor_def
      del: le_read.simps)


section \<open>Marshalling of the arguments\<close>

lemma le_read_4:
  "le_read f a 4 = uint (f a) + 256 * (uint (f (a + 1)) + 256 * (uint (f (a + 2))
     + 256 * uint (f (a + 3))))"
  by (simp add: eval_nat_numeral add.commute)

lemma le_write_4:
  "le_write f a 4 v = f(a := word_of_int v, a + 1 := word_of_int (v div 256),
     a + 2 := word_of_int (v div 256 div 256), a + 3 := word_of_int (v div 256 div 256 div 256))"
  by (simp add: eval_nat_numeral add.commute)

lemma cstring_step:
  "0 < n \<Longrightarrow> cstring f a n =
     (if f a = 0 then [] else char_of (unat (f a)) # cstring f (a + 1) (n - 1))"
  by (cases n) simp_all

lemma marshal_prog_42_result:
  assumes "instance' s = Some i" "4176 \<le> byteLength (buffer i)" "env s = [(''A'', ''1'')]"
  shows "fst (marshal s [PString ''prog'', PString ''42'']) = Inr (3, 4136)"
  using assms
  by (simp add: marshal_def strPtr_def utf8_encode_def utf8_char_def json_escape_def Let_def
      env_entry_def andThen_def setUint32_def mem_update_def dv_setUint32_def dv_ok_def)


lemma upt3: "[0..<3] = [0, 1, 2]" "[0..<Suc 0] = [0]"
  by (simp_all add: upt_rec)

lemma marshal_prog_42_decoded:
  assumes "instance' s = Some i" "4176 \<le> byteLength (buffer i)" "env s = [(''A'', ''1'')]"
  shows "decoded (snd (marshal s [PString ''prog'', PString ''42''])) 3 4136 =
     Inr ([[CHR 0x22] @ ''main.wasm'' @ [CHR 0x22], [CHR 0x22] @ ''prog'' @ [CHR 0x22],
           [CHR 0x22] @ ''42'' @ [CHR 0x22]], 1, [''A=1''])"
  using assms
  by (simp add: marshal_def strPtr_def utf8_encode_def utf8_char_def json_escape_def Let_def
      env_entry_def andThen_def setUint32_def mem_update_def dv_setUint32_def dv_ok_def
      decoded_def memRaw_def ref_decode_def le_read_4 le_write_4 cstring_step upt3 char_of_eq_iff
      del: le_read.simps le_write.simps)


lemma upt2: "[0..<2] = [0, 1]"
  by (simp add: upt_rec)

lemma marshal_42_decoded:
  assumes "instance' s = Some i" "4176 \<le> byteLength (buffer i)" "env s = [(''A'', ''1'')]"
  shows "fst (marshal s [PString ''42'']) = Inr (2, 4128)"
    and "decoded (snd (marshal s [PString ''42''])) 2 4128 =
     Inr ([[CHR 0x22] @ ''main.wasm'' @ [CHR 0x22], [CHR 0x22] @ ''42'' @ [CHR 0x22]],
          1, [''A=1''])"
  using assms
  by (simp_all add: marshal_def strPtr_def utf8_encode_def utf8_char_def json_escape_def Let_def
      env_entry_def andThen_def setUint32_def mem_update_def dv_setUint32_def dv_ok_def
      decoded_def memRaw_def ref_decode_def le_read_4 le_write_4 cstring_step upt3 upt2
      char_of_eq_iff
      del: le_read.simps le_write.simps)

lemma env_A1_fresh:
  "instance' (env_A1 (fresh 8192)) = Some (idle_instance 8192)"
  "4176 \<le> byteLength (buffer (idle_instance 8192))"
  "env (env_A1 (fresh 8192)) = [(''A'', ''1'')]"
  by (simp_all add: env_A1_def go_eval)


section \<open>The Value Table along the events\<close>
















































section \<open>Claims\<close>

text \<open>
  C1. On a state whose Value Table is well formed, and at an address whose eight bytes
  lie in the memory, storing a primitive (any number, among them NaN; \<^verbatim>\<open>undefined\<close>,
  \<^verbatim>\<open>null\<close>, \<^verbatim>\<open>true\<close>, \<^verbatim>\<open>false\<close>) or a value already interned raises nothing, and
  \<^verbatim>\<open>loadValue\<close> at that address then returns a value observationally equal to it.
  A NaN comes back as the number NaN. The same holds of any other value when the table
  has room for one more entry.
\<close>

theorem storeValue_loadValue_roundtrip:
  assumes "table_ok s" and "mem_ok s addr 8"
    and "primitive v \<or> interned s v \<or> has_room s"
  shows "fst (storeValue s addr v) = Inr ()
       \<and> (\<exists>w. loadValue (snd (storeValue s addr v)) addr = Inr w \<and> obs_eq w v)
       \<and> (\<forall>n. v = JNumber n \<longrightarrow> isNaN n \<longrightarrow>
             loadValue (snd (storeValue s addr v)) addr = Inr NaN)"
proof -
  have c: "primitive v \<or> ref_of s v \<noteq> None \<or> has_room s"
    using assms(3) by (auto simp: interned_def)
  show ?thesis
    using storeValue_loadValue[OF assms(1,2) c] by blast
qed

lemma fresh_string_interned:
  "interned (snd (storeValue (fresh 16) 0 (JString ''go''))) (JString ''go'')"
proof -
  have "has_room (fresh 16)"
    by (simp add: has_room_def fresh_def load_def load_finish_def load_begin_def)
  from internRef_succeeds[OF table_ok_load, of _ _ "JString ''go''"] this
  obtain r s1 where "internRef (fresh 16) (JString ''go'') = (Inr r, s1)"
    unfolding fresh_def by blast
  from storeValue_ref(4)[OF _ _ _ this, of 0] show ?thesis
    by (simp add: interned_def fresh_def table_ok_load mem_ok_fresh[unfolded fresh_def])
qed

text \<open>
  The round trip on a freshly loaded instance with 16 bytes of memory: NaN, and a string
  that an earlier \<^verbatim>\<open>storeValue\<close> interned.
\<close>

theorem storeValue_loadValue_roundtrip_witness:
  "table_ok (fresh 16) \<and> mem_ok (fresh 16) 8 8 \<and> primitive NaN
   \<and> loadValue (snd (storeValue (fresh 16) 8 NaN)) 8 = Inr NaN
   \<and> interned (snd (storeValue (fresh 16) 0 (JString ''go''))) (JString ''go'')
   \<and> loadValue (snd (storeValue (snd (storeValue (fresh 16) 0 (JString ''go''))) 8
         (JString ''go''))) 8 = Inr (JString ''go'')"
proof -
  let ?s1 = "snd (storeValue (fresh 16) 0 (JString ''go''))"
  have t: "table_ok (fresh 16)" by (simp add: fresh_def table_ok_load)
  have m: "mem_ok (fresh 16) 8 8" by (simp add: mem_ok_fresh)
  have p: "primitive NaN" by (simp add: NaN_def)
  have t1: "table_ok ?s1" by (rule table_ok_storeValue[OF t])
  have m1: "mem_ok ?s1 8 8"
    by (simp add: mem_ok_def fresh_def load_def load_finish_def load_begin_def
        internRef_def storeBoxed_def setUint32_def mem_update_def andThen_def constructor_def
        dv_setUint32_def dv_ok_def idle_instance_def zero_buffer_def)
  have i1: "interned ?s1 (JString ''go'')" by (rule fresh_string_interned)
  from storeValue_loadValue_roundtrip[OF t m, of NaN] p
  have a: "loadValue (snd (storeValue (fresh 16) 8 NaN)) 8 = Inr NaN"
    using isNaN_NaN by (simp add: NaN_def)
  from storeValue_loadValue_roundtrip[OF t1 m1, of "JString ''go''"] i1
  have b: "loadValue (snd (storeValue ?s1 8 (JString ''go''))) 8 = Inr (JString ''go'')"
    by auto
  show ?thesis using t m p a i1 b by blast
qed




text \<open>
  C5, as the code has it. \<^verbatim>\<open>loadValue\<close> does not check the index: when the slot holds a
  boxed reference (the high word is the tag \<^verbatim>\<open>0x7FF80000\<close> with a type flag) whose index
  is at or beyond the length of the Value Table, the read of \<^verbatim>\<open>this._values[id]\<close> finds
  nothing and \<^verbatim>\<open>loadValue\<close> returns \<^verbatim>\<open>undefined\<close>; nothing is raised.
\<close>

theorem loadValue_beyond_table:
  assumes "getUint32 s (addr + 4) = Inr h" and "nanHead \<le> h" and "h \<le> nanHead + 3"
    and "getUint32 s addr = Inr ident" and "values' s = Some vs"
    and "int (length vs) \<le> ident"
  shows "loadValue s addr = Inr JUndefined"
proof -
  note f = getFloat64_halves[OF assms(4,1)]
  have "isNaN (word_of_int (ident + 4294967296 * h))"
    using f(2,3) assms(2,3) by (intro isNaN_boxed) (simp_all add: nanHead_def)
  then show ?thesis using f(1) assms(4,5,6) by (simp add: loadValue_def)
qed

text \<open>
  On a freshly loaded instance (a table of eight entries) a slot holding the tag and the
  index 100 is decoded to \<^verbatim>\<open>undefined\<close>: the bridge does not crash.
\<close>

theorem loadValue_beyond_table_counterexample:
  "values' (snd (storeBoxed (fresh 16) 0 nanHead 100)) =
      Some [NaN, JUndefined, JNull, JBool True, JBool False, internalGlobal, JObject 1, JObject 2]
   \<and> getUint32 (snd (storeBoxed (fresh 16) 0 nanHead 100)) (0 + 4) = Inr nanHead
   \<and> getUint32 (snd (storeBoxed (fresh 16) 0 nanHead 100)) 0 = Inr 100
   \<and> loadValue (snd (storeBoxed (fresh 16) 0 nanHead 100)) 0 = Inr JUndefined"
proof -
  have m: "mem_ok (fresh 16) 0 8" by (simp add: mem_ok_fresh)
  have "loadValue (snd (storeBoxed (fresh 16) 0 nanHead 100)) 0 =
      Inr (if (100::int) < int (length [NaN, JUndefined, JNull, JBool True, JBool False,
        internalGlobal, JObject 1, JObject 2]) then
        [NaN, JUndefined, JNull, JBool True, JBool False, internalGlobal, JObject 1, JObject 2]
          ! nat 100 else JUndefined)"
    by (rule loadValue_storeBoxed[OF m values_fresh]) simp_all
  then show ?thesis
    using storeBoxed_read(1)[OF m, of 100 nanHead] storeBoxed_read_high[OF m, of nanHead 100]
    by (simp add: storeBoxed_frame values_fresh nanHead_def)
qed

text \<open>The same with the index 8, the first one beyond the table, and the string tag.\<close>

theorem loadValue_beyond_table_witness:
  "getUint32 (snd (storeBoxed (fresh 16) 0 (nanHead + 1) 8)) (0 + 4) = Inr (nanHead + 1)
   \<and> nanHead \<le> nanHead + 1 \<and> nanHead + 1 \<le> nanHead + 3
   \<and> getUint32 (snd (storeBoxed (fresh 16) 0 (nanHead + 1) 8)) 0 = Inr 8
   \<and> values' (snd (storeBoxed (fresh 16) 0 (nanHead + 1) 8)) =
      Some [NaN, JUndefined, JNull, JBool True, JBool False, internalGlobal, JObject 1, JObject 2]
   \<and> int (length [NaN, JUndefined, JNull, JBool True, JBool False, internalGlobal, JObject 1,
        JObject 2]) \<le> 8
   \<and> loadValue (snd (storeBoxed (fresh 16) 0 (nanHead + 1) 8)) 0 = Inr JUndefined"
proof -
  let ?s = "snd (storeBoxed (fresh 16) 0 (nanHead + 1) 8)"
  let ?vs = "[NaN, JUndefined, JNull, JBool True, JBool False, internalGlobal, JObject 1,
        JObject 2]"
  have m: "mem_ok (fresh 16) 0 8" by (simp add: mem_ok_fresh)
  have a: "getUint32 ?s (0 + 4) = Inr (nanHead + 1)"
    by (rule storeBoxed_read_high[OF m]) (simp_all add: nanHead_def)
  have b: "nanHead \<le> nanHead + 1" "nanHead + 1 \<le> nanHead + 3" by simp_all
  have c: "getUint32 ?s 0 = Inr 8"
    by (rule storeBoxed_read(1)[OF m]) (simp_all add: nanHead_def)
  have d: "values' ?s = Some ?vs" by (simp add: storeBoxed_frame values_fresh)
  have e: "int (length ?vs) \<le> 8" by simp
  from loadValue_beyond_table[OF a b c d e] show ?thesis using a b c d e by blast
qed


text \<open>
  C3 at \<open>2 ^ 31\<close>. \<^verbatim>\<open>setInt64\<close> writes the low word with \<^verbatim>\<open>setUint32\<close>, and
  \<^verbatim>\<open>getInt64\<close> reads it back with \<^verbatim>\<open>getInt32\<close>, as a signed word: the value
  2147483648 is read back as -2147483648.
\<close>

theorem getInt64_setInt64_bit31:
  "fst (setInt64 (fresh 16) 0 2147483648) = Inr ()
   \<and> getInt64 (snd (setInt64 (fresh 16) 0 2147483648)) 0 = Inr (- 2147483648)"
proof -
  have m: "mem_ok (fresh 16) 0 8" by (simp add: mem_ok_fresh)
  show ?thesis using getInt64_setInt64[OF m, of 2147483648] by (simp add: int32_of_def)
qed

text \<open>
  C4 on the code. Neither the constructor nor \<^verbatim>\<open>load\<close> assigns \<^verbatim>\<open>_callbackTimeouts\<close> or
  \<^verbatim>\<open>_nextCallbackTimeoutID\<close>, and no event assigns them later. On a loaded instance, after
  any events, \<^verbatim>\<open>scheduleCallback\<close> raises \<^verbatim>\<open>TypeError\<close>; the state it leaves differs only in
  the counter (NaN from the first call on): no timer is registered and no id is written.
\<close>

theorem scheduleCallback_raises:
  "scheduleCallback (foldl step (load (constructor me) inst) es) addr =
     (Inl TypeError, (foldl step (load (constructor me) inst) es)
        \<lparr>nextCallbackTimeoutID :=
           incr (nextCallbackTimeoutID (foldl step (load (constructor me) inst) es))\<rparr>)"
  by (rule scheduleCallback_undefined_map)
     (rule callbackTimeouts_steps[OF callbackTimeouts_constructor])


text \<open>
  C8. Once the body of \<^verbatim>\<open>run\<close> has been entered, and whatever events follow short of a
  \<^verbatim>\<open>reset\<close>, a further \<^verbatim>\<open>run\<close> raises the error \<^verbatim>\<open>Go Module already running\<close> and leaves
  the state as it was: the entry point is not invoked.
\<close>

theorem run_reentrancy_guard:
  assumes "\<forall>e\<in>set es. \<not> is_reset e"
  shows "run (foldl step (snd (run s ps)) es) ps' =
           (Inl (Error ''Go Module already running''), foldl step (snd (run s ps)) es)
       \<and> entry_calls (snd (run (foldl step (snd (run s ps)) es) ps')) =
           entry_calls (foldl step (snd (run s ps)) es)"
proof -
  have "running (foldl step (snd (run s ps)) es)"
    using persists_steps[OF assms, of "snd (run s ps)"] running_run[of s ps]
    by (simp add: persists_def)
  then show ?thesis by (simp add: run_def)
qed

text \<open>
  A first \<^verbatim>\<open>run\<close> on a fresh instance whose guest makes no call is suspended on its
  promise; a second \<^verbatim>\<open>run\<close> then raises.
\<close>

theorem run_reentrancy_guard_witness:
  "fst (run (fresh 8192) []) = Inr Suspended
   \<and> suspended (snd (run (fresh 8192) [])) = [(0, 1, 4112)]
   \<and> \<not> is_reset ResolverEvent
   \<and> run (foldl step (snd (run (fresh 8192) [])) [ResolverEvent]) [PInt 7] =
       (Inl (Error ''Go Module already running''),
        foldl step (snd (run (fresh 8192) [])) [ResolverEvent])
   \<and> entry_calls (snd (run (foldl step (snd (run (fresh 8192) [])) [ResolverEvent])
         [PInt 7])) = [(1, 4112)]"
proof -
  have a: "fst (run (fresh 8192) []) = Inr Suspended" by (simp add: go_eval run_eval)
  have b: "suspended (snd (run (fresh 8192) [])) = [(0, 1, 4112)]"
    by (simp add: go_eval run_eval)
  have c: "\<forall>e\<in>set [ResolverEvent]. \<not> is_reset e" by simp
  have d: "entry_calls (foldl step (snd (run (fresh 8192) [])) [ResolverEvent]) = [(1, 4112)]"
    by (simp add: go_eval run_eval call_resolveCallbackPromise_def)
  from run_reentrancy_guard[OF c, of "fresh 8192" "[]" "[PInt 7]"] a b d
  show ?thesis by simp
qed


text \<open>
  C9. Once \<^verbatim>\<open>exited\<close> is set and an iteration has installed the resolver, every later call
  of \<^verbatim>\<open>_resolveCallbackPromise\<close>, whatever events came between short of a \<^verbatim>\<open>reset\<close>,
  raises the error \<^verbatim>\<open>bad callback: Go program has already exited\<close> and changes nothing:
  no \<^verbatim>\<open>resolve\<close> is scheduled and a suspended loop stays suspended.
\<close>

theorem resolve_after_exit:
  assumes "exited s" and "resolveCallbackPromise s \<noteq> None" and "\<forall>e\<in>set es. \<not> is_reset e"
  shows "call_resolveCallbackPromise (foldl step s es) =
           (Inl (Error ''bad callback: Go program has already exited''), foldl step s es)"
proof -
  have "exited (foldl step s es)" "resolveCallbackPromise (foldl step s es) \<noteq> None"
    using persists_steps[OF assms(3), of s] assms(1,2) by (simp_all add: persists_def)
  then show ?thesis by (auto simp: call_resolveCallbackPromise_def)
qed

text \<open>
  A run suspended on promise 0, then \<^verbatim>\<open>wasmExit\<close> called while it is suspended: the
  resolver raises.
\<close>

theorem resolve_after_exit_witness:
  "exited (snd (wasmExit (snd (run (fresh 8192) [])) 0))
   \<and> resolveCallbackPromise (snd (wasmExit (snd (run (fresh 8192) [])) 0)) = Some 0
   \<and> suspended (snd (wasmExit (snd (run (fresh 8192) [])) 0)) = [(0, 1, 4112)]
   \<and> \<not> is_reset (TimerEvent 5)
   \<and> call_resolveCallbackPromise
        (foldl step (snd (wasmExit (snd (run (fresh 8192) [])) 0)) [TimerEvent 5]) =
       (Inl (Error ''bad callback: Go program has already exited''),
        foldl step (snd (wasmExit (snd (run (fresh 8192) [])) 0)) [TimerEvent 5])"
proof -
  let ?s = "snd (wasmExit (snd (run (fresh 8192) [])) 0)"
  have a: "exited ?s" by (simp add: go_eval run_eval wasmExit_def getInt32_def dv_getInt32_def)
  have b: "resolveCallbackPromise ?s = Some 0"
    by (simp add: go_eval run_eval wasmExit_def getInt32_def dv_getInt32_def)
  have c: "suspended ?s = [(0, 1, 4112)]"
    by (simp add: go_eval run_eval wasmExit_def getInt32_def dv_getInt32_def)
  have d: "\<forall>e\<in>set [TimerEvent 5]. \<not> is_reset e" by simp
  have b': "resolveCallbackPromise ?s \<noteq> None" using b by simp
  from resolve_after_exit[OF a b' d] a b c show ?thesis by simp
qed


text \<open>
  C10. When an iteration of the run loop ends because the guest called exit, the instance
  is still loaded and \<^verbatim>\<open>running\<close> is still set; after any events short of a \<^verbatim>\<open>reset\<close>,
  \<^verbatim>\<open>run\<close> raises \<^verbatim>\<open>Go Module already running\<close> and \<^verbatim>\<open>loaded\<close> is true.
\<close>

theorem run_after_exit:
  assumes "running s" and "run_iteration s argc argv = (Inr Finished, s1)"
    and "\<forall>e\<in>set es. \<not> is_reset e"
  shows "exited s1 \<and> loaded (foldl step s1 es)
       \<and> run (foldl step s1 es) ps =
           (Inl (Error ''Go Module already running''), foldl step s1 es)"
proof -
  note f = run_iteration_Finished[OF assms(2)]
  have "running s1" using persists_run_iteration[of s argc argv] assms(1,2)
    by (simp add: persists_def)
  then have "running (foldl step s1 es)" "loaded (foldl step s1 es)"
    using persists_steps[OF assms(3), of s1] f(2) by (simp_all add: persists_def)
  then show ?thesis using f(1) by (simp add: run_def)
qed
text \<open>A guest that calls exit in its first invocation, then a second \<^verbatim>\<open>run\<close>.\<close>

theorem run_after_exit_witness:
  "running (snd (marshal ((load (constructor (JObject 2)) (exiting_instance 8192))
      \<lparr>running := True\<rparr>) []))
   \<and> fst (run_iteration (snd (marshal ((load (constructor (JObject 2)) (exiting_instance 8192))
      \<lparr>running := True\<rparr>) [])) 1 4112) = Inr Finished
   \<and> \<not> is_reset (RunEvent [])
   \<and> exited (snd (run_iteration (snd (marshal ((load (constructor (JObject 2))
        (exiting_instance 8192))\<lparr>running := True\<rparr>) [])) 1 4112))
   \<and> loaded (foldl step (snd (run_iteration (snd (marshal ((load (constructor (JObject 2))
        (exiting_instance 8192))\<lparr>running := True\<rparr>) [])) 1 4112)) [RunEvent []])
   \<and> run (foldl step (snd (run_iteration (snd (marshal ((load (constructor (JObject 2))
        (exiting_instance 8192))\<lparr>running := True\<rparr>) [])) 1 4112)) [RunEvent []]) [] =
       (Inl (Error ''Go Module already running''),
        foldl step (snd (run_iteration (snd (marshal ((load (constructor (JObject 2))
        (exiting_instance 8192))\<lparr>running := True\<rparr>) [])) 1 4112)) [RunEvent []])"
proof -
  let ?s = "snd (marshal ((load (constructor (JObject 2)) (exiting_instance 8192))
      \<lparr>running := True\<rparr>) [])"
  have a: "running ?s"
    by (simp add: go_eval run_eval exiting_instance_def)
  have b: "fst (run_iteration ?s 1 4112) = Inr Finished"
    by (simp add: go_eval run_eval exiting_instance_def wasmExit_def getInt32_def dv_getInt32_def)
  then have b': "run_iteration ?s 1 4112 = (Inr Finished, snd (run_iteration ?s 1 4112))"
    by (simp add: prod_eq_iff)
  have c: "\<forall>e\<in>set [RunEvent []]. \<not> is_reset e" by simp
  from run_after_exit[OF a b' c, of "[]"] a b show ?thesis by simp
qed

text \<open>
  C6. On a well-formed Value Table with room for one more entry, with the result slot and
  its flag byte inside the memory and operands that decode: when the host operation of
  \<^verbatim>\<open>valueCall\<close>, \<^verbatim>\<open>valueInvoke\<close> or \<^verbatim>\<open>valueNew\<close> raises, the operation itself raises
  nothing, the result slot decodes to the raised value and the flag byte is 0; when it
  returns, the slot decodes to the returned value and the flag byte is 1.
\<close>

theorem dispatch_isolation:
  assumes "table_ok s" and "has_room s"
  shows "(mem_ok s (addr + 56) 9 \<and> valueCall_operands h s addr = Inr (method, obj, args) \<longrightarrow>
            dispatched (valueCall h s addr) (addr + 56) (reflect_apply h method obj args))
       \<and> (mem_ok s (addr + 40) 9 \<and> valueInvoke_operands s addr = Inr (f, xs) \<longrightarrow>
            dispatched (valueInvoke h s addr) (addr + 40) (reflect_apply h f JUndefined xs)
          \<and> dispatched (valueNew h s addr) (addr + 40) (reflect_construct h f xs))"
  using dispatched_catch[OF assms, where slot="addr + 56" and h=h
      and res="reflect_apply h method obj args"]
    dispatched_catch[OF assms, where slot="addr + 40" and h=h
      and res="reflect_apply h f JUndefined xs"]
    dispatched_catch[OF assms, where slot="addr + 40" and h=h
      and res="reflect_construct h f xs"]
  by (simp add: valueCall_def valueCall_try_def valueInvoke_def valueInvoke_try_def
      valueNew_def valueNew_try_def)


text \<open>
  On a fresh instance with 128 bytes of zeroed memory the operands decode to the number 0
  and no arguments; the call and the invocation raise, the construction succeeds.
\<close>

theorem dispatch_isolation_witness:
  "table_ok (fresh 128) \<and> has_room (fresh 128)
   \<and> mem_ok (fresh 128) (0 + 56) 9
   \<and> valueCall_operands raising_host (fresh 128) 0 = Inr (JFunction 1, JNumber 0, [])
   \<and> mem_ok (fresh 128) (0 + 40) 9
   \<and> valueInvoke_operands (fresh 128) 0 = Inr (JNumber 0, [])
   \<and> reflect_apply raising_host (JFunction 1) (JNumber 0) [] = Inl (JString ''boom'')
   \<and> reflect_construct raising_host (JNumber 0) [] = Inr (JObject 9)
   \<and> fst (valueCall raising_host (fresh 128) 0) = Inr ()
   \<and> loadValue (snd (valueCall raising_host (fresh 128) 0)) 56 = Inr (JString ''boom'')
   \<and> getUint8 (snd (valueCall raising_host (fresh 128) 0)) 64 = Inr 0
   \<and> loadValue (snd (valueInvoke raising_host (fresh 128) 0)) 40 = Inr (JString ''boom'')
   \<and> getUint8 (snd (valueInvoke raising_host (fresh 128) 0)) 48 = Inr 0
   \<and> fst (valueNew raising_host (fresh 128) 0) = Inr ()
   \<and> loadValue (snd (valueNew raising_host (fresh 128) 0)) 40 = Inr (JObject 9)
   \<and> getUint8 (snd (valueNew raising_host (fresh 128) 0)) 48 = Inr 1"
proof -
  have t: "table_ok (fresh 128)" by (simp add: fresh_def table_ok_load)
  have r: "has_room (fresh 128)" by (rule has_room_fresh)
  have m: "mem_ok (fresh 128) (0 + 56) 9" "mem_ok (fresh 128) (0 + 40) 9"
    by (simp_all add: mem_ok_fresh)
  have a: "reflect_apply raising_host (JFunction 1) (JNumber 0) [] = Inl (JString ''boom'')"
    "reflect_apply raising_host (JNumber 0) JUndefined [] = Inl (JString ''boom'')"
    "reflect_construct raising_host (JNumber 0) [] = Inr (JObject 9)"
    by (simp_all add: raising_host_def)
  from dispatch_isolation[OF t r, of 0 raising_host "JFunction 1" "JNumber 0" "[]"
      "JNumber 0" "[]"]
  show ?thesis using t r m fresh_operands a
    by (simp add: dispatched_def)
qed

text \<open>
  C2, as the code has it. For the parameters \<^verbatim>\<open>"prog"\<close> and \<^verbatim>\<open>"42"\<close> and the environment
  \<^verbatim>\<open>{"A": "1"}\<close>, on a memory of at least 4176 bytes, \<^verbatim>\<open>run\<close> passes \<open>argc = 3\<close> and
  \<open>argv = 4136\<close>, and the block decodes to the three strings \<^verbatim>\<open>"main.wasm"\<close>,
  \<^verbatim>\<open>"prog"\<close> and \<^verbatim>\<open>"42"\<close>, each with the double quotes that \<^verbatim>\<open>JSON.stringify\<close> puts
  around a string, then the count 1 of the environment and the entry \<^verbatim>\<open>A=1\<close>.
\<close>

theorem argv_block_decodes:
  assumes "instance' s = Some i" and "4176 \<le> byteLength (buffer i)"
    and "env s = [(''A'', ''1'')]"
  shows "fst (marshal s [PString ''prog'', PString ''42'']) = Inr (3, 4136)
       \<and> decoded (snd (marshal s [PString ''prog'', PString ''42''])) 3 4136 =
           Inr ([[CHR 0x22] @ ''main.wasm'' @ [CHR 0x22], [CHR 0x22] @ ''prog'' @ [CHR 0x22],
                 [CHR 0x22] @ ''42'' @ [CHR 0x22]], 1, [''A=1''])"
  using marshal_prog_42_result[OF assms] marshal_prog_42_decoded[OF assms] by simp

text \<open>The same on a freshly loaded instance with 8192 bytes of memory.\<close>

theorem argv_block_decodes_witness:
  "instance' (env_A1 (fresh 8192)) = Some (idle_instance 8192)
   \<and> 4176 \<le> byteLength (buffer (idle_instance 8192))
   \<and> env (env_A1 (fresh 8192)) = [(''A'', ''1'')]
   \<and> fst (marshal (env_A1 (fresh 8192)) [PString ''prog'', PString ''42'']) = Inr (3, 4136)
   \<and> decoded (snd (marshal (env_A1 (fresh 8192)) [PString ''prog'', PString ''42''])) 3 4136 =
        Inr ([[CHR 0x22] @ ''main.wasm'' @ [CHR 0x22], [CHR 0x22] @ ''prog'' @ [CHR 0x22],
              [CHR 0x22] @ ''42'' @ [CHR 0x22]], 1, [''A=1''])"
  using argv_block_decodes[OF env_A1_fresh] env_A1_fresh by simp

text \<open>
  The block does not decode to the strings \<^verbatim>\<open>prog\<close> and \<^verbatim>\<open>42\<close> with a count of 2: with
  both as parameters \<open>argc\<close> is 3, and with \<^verbatim>\<open>"42"\<close> alone \<open>argc\<close> is 2 but the strings
  are \<^verbatim>\<open>"main.wasm"\<close> and \<^verbatim>\<open>"42"\<close>, quotes included.
\<close>

theorem argv_block_counterexample:
  "fst (marshal (env_A1 (fresh 8192)) [PString ''prog'', PString ''42'']) = Inr (3, 4136)
   \<and> decoded (snd (marshal (env_A1 (fresh 8192)) [PString ''prog'', PString ''42''])) 3 4136
       \<noteq> Inr ([''prog'', ''42''], 1, [''A=1''])
   \<and> fst (marshal (env_A1 (fresh 8192)) [PString ''42'']) = Inr (2, 4128)
   \<and> decoded (snd (marshal (env_A1 (fresh 8192)) [PString ''42''])) 2 4128
       \<noteq> Inr ([''prog'', ''42''], 1, [''A=1''])"
  using marshal_prog_42_result[OF env_A1_fresh] marshal_prog_42_decoded[OF env_A1_fresh] marshal_42_decoded[OF env_A1_fresh] by simp

end
